theory Spec2Isabelle
  imports
    Main
    "HOL-Library.Word"
    "HOL-Library.AList"
    "HOL-Library.Monad_Syntax"
    "HOL-Library.List_Lexorder"
    "HOL-Library.Char_ord"
    "HOL-Library.Product_Lexorder"
begin

section \<open>Names\<close>

text \<open>
  An \<open>FName\<close> is an interned string. It is modelled by its string; \<open>LexicalLess\<close> is the
  lexicographic order on strings. The default-constructed name is \<open>NAME_None\<close>.
\<close>

type_synonym FName = string

definition NAME_None :: FName where
  "NAME_None = ''None''"

definition IsNone :: "FName \<Rightarrow> bool" where
  "IsNone n = (n = NAME_None)"

record FPrimaryAssetId =
  PrimaryAssetType :: FName
  PrimaryAssetName :: FName



section \<open>Engine containers\<close>

text \<open>
  \<open>TSet\<close> and \<open>TMap\<close> iterate in insertion order as long as nothing is removed, and the
  redirect code iterates them, so both are lists: a \<open>TSet\<close> is a duplicate-free list, a
  \<open>TMap\<close> an association list. \<open>Emplace\<close> on a present key replaces the value in place.
\<close>

definition TSet_Emplace :: "'a list \<Rightarrow> 'a \<Rightarrow> 'a list" where
  "TSet_Emplace S x = (if x \<in> set S then S else S @ [x])"

definition TSet_Append :: "'a list \<Rightarrow> 'a list \<Rightarrow> 'a list" where
  "TSet_Append S xs = fold (\<lambda>x acc. TSet_Emplace acc x) xs S"

type_synonym FNameMap = "(FName \<times> FName) list"

definition TMap_Contains :: "('k \<times> 'v) list \<Rightarrow> 'k \<Rightarrow> bool" where
  "TMap_Contains m k = (map_of m k \<noteq> None)"

definition TMap_Emplace :: "('k \<times> 'v) list \<Rightarrow> 'k \<Rightarrow> 'v \<Rightarrow> ('k \<times> 'v) list" where
  "TMap_Emplace m k v = AList.update k v m"

section \<open>Redirects\<close>

record FCommonInventoryRedirector =
  OldValue :: FName
  NewValue :: FName

definition Redirector_IsValid :: "FCommonInventoryRedirector \<Rightarrow> bool" where
  "Redirector_IsValid r =
     (\<not> IsNone (OldValue r) \<and> \<not> IsNone (NewValue r) \<and> OldValue r \<noteq> NewValue r)"

definition SwapValues :: "FCommonInventoryRedirector \<Rightarrow> FCommonInventoryRedirector" where
  "SwapValues r = r\<lparr>OldValue := NewValue r, NewValue := OldValue r\<rparr>"

text \<open>\<open>GenerateRedirectionMap\<close>: invalid and ambiguous redirectors are skipped with a warning.\<close>

fun GenerateRedirectionMap_loop ::
  "FCommonInventoryRedirector list \<Rightarrow> FNameMap \<Rightarrow> FNameMap" where
  "GenerateRedirectionMap_loop [] RedirectionMap = RedirectionMap"
| "GenerateRedirectionMap_loop (Redirector # rest) RedirectionMap =
     (if \<not> Redirector_IsValid Redirector then GenerateRedirectionMap_loop rest RedirectionMap
      else if TMap_Contains RedirectionMap (OldValue Redirector)
        then GenerateRedirectionMap_loop rest RedirectionMap
      else GenerateRedirectionMap_loop rest
             (TMap_Emplace RedirectionMap (OldValue Redirector) (NewValue Redirector)))"

definition GenerateRedirectionMap :: "FCommonInventoryRedirector list \<Rightarrow> FNameMap" where
  "GenerateRedirectionMap InRedirects = GenerateRedirectionMap_loop InRedirects []"

text \<open>
  \<open>ResolveValue\<close>: the loop state is \<open>(OutValue, VisitedKeys)\<close>; the result is the pair of
  the returned flag and \<open>OutValue\<close>.
\<close>

function ResolveValue_loop ::
  "FNameMap \<Rightarrow> FName \<Rightarrow> FName option \<Rightarrow> FName \<Rightarrow> FName list \<Rightarrow> FName" where
  "ResolveValue_loop UnresolvedRedirects InValue StopValue OutValue VisitedKeys =
     (case map_of UnresolvedRedirects OutValue of
        None \<Rightarrow> OutValue
      | Some NextValue \<Rightarrow>
          if StopValue = Some NextValue then NextValue
          else if NextValue \<in> set VisitedKeys then InValue
          else ResolveValue_loop UnresolvedRedirects InValue StopValue NextValue
                 (TSet_Emplace VisitedKeys OutValue))"
  by pat_completeness auto
termination
proof (relation "measure (\<lambda>(U, i, s, ov, V).
         2 * card (fst ` set U - set V) + (if ov \<in> set V then 1 else 0))", goal_cases)
  case 1
  show ?case by simp
next
  case (2 U i s ov V nv)
  have dom: "ov \<in> fst ` set U"
    using 2(1) by (auto dest!: map_of_SomeD intro: rev_image_eqI)
  show ?case
  proof (cases "ov \<in> set V")
    case True
    with 2 show ?thesis by (simp add: TSet_Emplace_def)
  next
    case False
    have fin: "finite (fst ` set U - set V)" by simp
    have "fst ` set U - set (V @ [ov]) = (fst ` set U - set V) - {ov}" by auto
    moreover have "ov \<in> fst ` set U - set V" using dom False by simp
    ultimately have "card (fst ` set U - set (V @ [ov])) < card (fst ` set U - set V)"
      using fin by (metis card_Diff1_less)
    with False show ?thesis by (simp add: TSet_Emplace_def)
  qed
qed

definition ResolveValue :: "FNameMap \<Rightarrow> FName \<Rightarrow> FName option \<Rightarrow> bool \<times> FName" where
  "ResolveValue UnresolvedRedirects InValue StopValue =
     (let OutValue = ResolveValue_loop UnresolvedRedirects InValue StopValue InValue [InValue]
      in (InValue \<noteq> OutValue, OutValue))"

text \<open>
  \<open>ResolveRedirectionMap\<close>. The inner \<open>while\<close> loop has the state \<open>(NewValue, VisitedKeys)\<close>.
\<close>

function ResolveRedirectionMap_walk ::
  "FNameMap \<Rightarrow> FNameMap \<Rightarrow> FName list \<Rightarrow> FName \<Rightarrow> FName list \<Rightarrow> FName \<times> FName list" where
  "ResolveRedirectionMap_walk UnresolvedRedirects OutResolvedRedirects InvalidKeys newValue VisitedKeys =
     (case map_of UnresolvedRedirects newValue of
        None \<Rightarrow> (newValue, VisitedKeys)
      | Some NextValue \<Rightarrow>
          (case map_of OutResolvedRedirects NextValue of
             Some ResolvedValue \<Rightarrow> (ResolvedValue, TSet_Emplace VisitedKeys newValue)
           | None \<Rightarrow>
               if NextValue \<in> set (TSet_Emplace VisitedKeys newValue) \<or> NextValue \<in> set InvalidKeys
               then (NAME_None, TSet_Emplace VisitedKeys newValue)
               else ResolveRedirectionMap_walk UnresolvedRedirects OutResolvedRedirects InvalidKeys
                      NextValue (TSet_Emplace VisitedKeys newValue)))"
  by pat_completeness auto
termination
proof (relation "measure (\<lambda>(U, Out, Inv, nv, V).
         2 * card (fst ` set U - set V) + (if nv \<in> set V then 1 else 0))", goal_cases)
  case 1
  show ?case by simp
next
  case (2 U Out Inv nv V nx)
  have dom: "nv \<in> fst ` set U"
    using 2(1) by (auto dest!: map_of_SomeD intro: rev_image_eqI)
  show ?case
  proof (cases "nv \<in> set V")
    case True
    with 2 show ?thesis by (simp add: TSet_Emplace_def)
  next
    case False
    have fin: "finite (fst ` set U - set V)" by simp
    have "fst ` set U - set (V @ [nv]) = (fst ` set U - set V) - {nv}" by auto
    moreover have "nv \<in> fst ` set U - set V" using dom False by simp
    ultimately have "card (fst ` set U - set (V @ [nv])) < card (fst ` set U - set V)"
      using fin by (metis card_Diff1_less)
    with False 2 show ?thesis by (simp add: TSet_Emplace_def)
  qed
qed

text \<open>
  One iteration of the outer \<open>for\<close> loop, on the state \<open>(OutResolvedRedirects, InvalidKeys)\<close>.
\<close>

definition ResolveRedirectionMap_step ::
  "FNameMap \<Rightarrow> FNameMap \<times> FName list \<Rightarrow> FName \<times> FName \<Rightarrow> FNameMap \<times> FName list" where
  "ResolveRedirectionMap_step UnresolvedRedirects st entry =
     (case st of (OutResolvedRedirects, InvalidKeys) \<Rightarrow>
      case entry of (oldValue, newValue) \<Rightarrow>
      (case map_of OutResolvedRedirects newValue of
         Some ResolvedValue \<Rightarrow>
           (TMap_Emplace OutResolvedRedirects oldValue ResolvedValue, InvalidKeys)
       | None \<Rightarrow>
           if newValue \<in> set InvalidKeys then (OutResolvedRedirects, TSet_Emplace InvalidKeys oldValue)
           else
             (case ResolveRedirectionMap_walk UnresolvedRedirects OutResolvedRedirects InvalidKeys
                     newValue (TSet_Emplace [] oldValue) of
                (resolved, VisitedKeys) \<Rightarrow>
                  if \<not> IsNone resolved
                  then (fold (\<lambda>Key m. TMap_Emplace m Key resolved) VisitedKeys OutResolvedRedirects,
                        InvalidKeys)
                  else (OutResolvedRedirects, TSet_Append InvalidKeys VisitedKeys))))"

text \<open>
  The result is the resolved map together with the global dirty list \<open>InvalidKeys\<close>; the
  closing error is logged exactly when that list is not empty.
\<close>

definition ResolveRedirectionMap :: "FNameMap \<Rightarrow> FNameMap \<times> FName list" where
  "ResolveRedirectionMap UnresolvedRedirects =
     fold (\<lambda>entry st. ResolveRedirectionMap_step UnresolvedRedirects st entry)
       UnresolvedRedirects ([], [])"

definition TryRedirect_Name :: "FNameMap \<Rightarrow> FName \<Rightarrow> bool \<times> FName" where
  "TryRedirect_Name RedirectionMap InValue =
     (case map_of RedirectionMap InValue of
        Some newValue \<Rightarrow> (True, newValue)
      | None \<Rightarrow> (False, InValue))"

record FCommonInventoryRedirects =
  TypeRedirectionMap :: FNameMap
  NameRedirectionMap :: FNameMap

text \<open>
  \<open>LoadRedirectsFromConfig\<close>, with the two redirector lists of the settings object as
  arguments.
\<close>

definition LoadRedirectsFromConfig ::
  "FCommonInventoryRedirector list \<Rightarrow> FCommonInventoryRedirector list \<Rightarrow> FCommonInventoryRedirects" where
  "LoadRedirectsFromConfig PrimaryAssetTypeRedirects PrimaryAssetNameRedirects =
     \<lparr>TypeRedirectionMap =
        fst (ResolveRedirectionMap (GenerateRedirectionMap PrimaryAssetTypeRedirects)),
      NameRedirectionMap =
        fst (ResolveRedirectionMap (GenerateRedirectionMap PrimaryAssetNameRedirects))\<rparr>"

text \<open>\<open>TryRedirect\<close> on an identifier: the name first, then the type; the flag is \<open>bIsDirty\<close>.\<close>

definition TryRedirect :: "FCommonInventoryRedirects \<Rightarrow> FPrimaryAssetId \<Rightarrow> bool \<times> FPrimaryAssetId" where
  "TryRedirect R InPrimaryAssetId =
     (case TryRedirect_Name (NameRedirectionMap R) (PrimaryAssetName InPrimaryAssetId) of
        (bName, n) \<Rightarrow>
          (case TryRedirect_Name (TypeRedirectionMap R) (PrimaryAssetType InPrimaryAssetId) of
             (bType, t) \<Rightarrow>
               (bName \<or> bType, InPrimaryAssetId\<lparr>PrimaryAssetType := t, PrimaryAssetName := n\<rparr>)))"

definition IsStale :: "FCommonInventoryRedirects \<Rightarrow> FPrimaryAssetId \<Rightarrow> bool" where
  "IsStale R InPrimaryAssetId =
     (TMap_Contains (NameRedirectionMap R) (PrimaryAssetName InPrimaryAssetId)
      \<or> TMap_Contains (TypeRedirectionMap R) (PrimaryAssetType InPrimaryAssetId))"

text \<open>
  \<open>TArray::Find\<close>: the index of the first equal element, \<open>None\<close> for \<open>INDEX_NONE\<close>.
\<close>

fun TArray_Find :: "'a list \<Rightarrow> 'a \<Rightarrow> nat option" where
  "TArray_Find [] x = None"
| "TArray_Find (y # ys) x = (if y = x then Some 0 else map_option Suc (TArray_Find ys x))"

text \<open>
  The inversion loop of \<open>AppendRedirects\<close>,
  \<open>for (Current = NewValue; Next = UnresolvedRedirects.Find(Current); Current = *Next)\<close>.
  The loop has no guard of its own against a cyclic map, so it is a partial function:
  \<open>None\<close> stands for no result (the loop does not return, or indexing the array with
  \<open>INDEX_NONE\<close> aborts).
\<close>

partial_function (option) AppendRedirects_invert ::
  "FNameMap \<Rightarrow> FName \<Rightarrow> FCommonInventoryRedirector list \<Rightarrow> FCommonInventoryRedirector list option" where
  "AppendRedirects_invert UnresolvedRedirects Current InRedirects =
     (case map_of UnresolvedRedirects Current of
        None \<Rightarrow> Some InRedirects
      | Some Next \<Rightarrow>
          (case TArray_Find InRedirects \<lparr>OldValue = Current, NewValue = Next\<rparr> of
             None \<Rightarrow> None
           | Some i \<Rightarrow>
               AppendRedirects_invert UnresolvedRedirects Next
                 (InRedirects[i := SwapValues (InRedirects ! i)])))"

text \<open>
  \<open>AppendRedirects\<close> returns its flag together with the redirector array it was given by
  reference.
\<close>

definition AppendRedirects ::
  "FCommonInventoryRedirector list \<Rightarrow> FName \<Rightarrow> FName \<Rightarrow> bool
     \<Rightarrow> (bool \<times> FCommonInventoryRedirector list) option" where
  "AppendRedirects InRedirects oldValue newValue bInvertCircularDependency =
     (if oldValue = newValue then Some (False, InRedirects)
      else
        let UnresolvedRedirects = GenerateRedirectionMap InRedirects in
        if TMap_Contains UnresolvedRedirects oldValue then Some (False, InRedirects)
        else if \<not> TMap_Contains UnresolvedRedirects newValue
          then Some (True, InRedirects @ [\<lparr>OldValue = oldValue, NewValue = newValue\<rparr>])
        else if bInvertCircularDependency then
          (case ResolveValue UnresolvedRedirects newValue None of
             (bResolved, NewValueResolved) \<Rightarrow>
               if \<not> bResolved then Some (False, InRedirects)
               else if NewValueResolved \<noteq> oldValue then Some (False, InRedirects)
               else map_option (Pair True)
                      (AppendRedirects_invert UnresolvedRedirects newValue InRedirects))
        else Some (False, InRedirects))"

subsection \<open>Redirect chains\<close>

text \<open>
  The unresolved map read as a graph: \<open>has_final U k c\<close> says that the chain that starts
  at \<open>k\<close> ends at \<open>c\<close>, a value that is redirected no further; \<open>chain_cyclic U k\<close> says
  that the chain from \<open>k\<close> runs into a cycle.
\<close>

definition has_final :: "FNameMap \<Rightarrow> FName \<Rightarrow> FName \<Rightarrow> bool" where
  "has_final U k c = ((k, c) \<in> (set U)\<^sup>+ \<and> c \<notin> fst ` set U)"

definition no_final :: "FNameMap \<Rightarrow> FName \<Rightarrow> bool" where
  "no_final U k = (k \<in> fst ` set U \<and> (\<forall>c. \<not> has_final U k c))"

definition chain_cyclic :: "FNameMap \<Rightarrow> FName \<Rightarrow> bool" where
  "chain_cyclic U k = (\<exists>n. (k, n) \<in> (set U)\<^sup>* \<and> (n, n) \<in> (set U)\<^sup>+)"

definition res_inv :: "FNameMap \<Rightarrow> FNameMap \<Rightarrow> FName list \<Rightarrow> bool" where
  "res_inv U Out Inv =
     ((\<forall>k v. map_of Out k = Some v \<longrightarrow> has_final U k v) \<and> (\<forall>k \<in> set Inv. no_final U k))"

text \<open>What \<open>GenerateRedirectionMap\<close> guarantees of its result.\<close>

definition gen_inv :: "FNameMap \<Rightarrow> bool" where
  "gen_inv m = (distinct (map fst m) \<and> NAME_None \<notin> snd ` set m \<and> NAME_None \<notin> fst ` set m \<and> (\<forall>(k, v) \<in> set m. k \<noteq> v))"

text \<open>
  The result of the inversion loop in closed form: \<open>link_indices U rs C\<close> are the array
  positions at which \<open>TArray::Find\<close> finds the links of \<open>U\<close> that leave a value of \<open>C\<close>,
  and \<open>swap_at I rs\<close> swaps the redirectors at the positions \<open>I\<close>.
\<close>

definition link_indices :: "FNameMap \<Rightarrow> FCommonInventoryRedirector list \<Rightarrow> FName set \<Rightarrow> nat set" where
  "link_indices U rs C =
     {i. \<exists>c \<in> C. \<exists>nx. map_of U c = Some nx \<and> TArray_Find rs \<lparr>OldValue = c, NewValue = nx\<rparr> = Some i}"

definition swap_at :: "nat set \<Rightarrow> FCommonInventoryRedirector list \<Rightarrow> FCommonInventoryRedirector list" where
  "swap_at I rs = map (\<lambda>i. if i \<in> I then SwapValues (rs ! i) else rs ! i) [0..<length rs]"

text \<open>The chain of the source comment, \<open>Name1 -> Name2 -> Name3 -> Name4\<close>.\<close>

definition chain4 :: "FCommonInventoryRedirector list" where
  "chain4 = [\<lparr>OldValue = ''Name1'', NewValue = ''Name2''\<rparr>, \<lparr>OldValue = ''Name2'', NewValue = ''Name3''\<rparr>,
             \<lparr>OldValue = ''Name3'', NewValue = ''Name4''\<rparr>]"

section \<open>Registry records\<close>

text \<open>
  A payload is an instance of a script struct: the struct type, by name, and the values of
  its properties in declaration order. A struct view (\<open>FConstStructView\<close>) is modelled by
  the value it shows; \<open>None\<close> is the invalid (null) view. The model of a view is exact
  wherever the view has been re-resolved against the container slot it stands for, which
  \<open>FixupDependencies\<close> and \<open>RemoveCustomData\<close> do.
\<close>

datatype FPropertyValue =
  IntProperty int | BoolProperty bool | NameProperty FName | StrProperty string

record FStruct =
  ScriptStruct :: FName
  Memory :: "FPropertyValue list"

type_synonym FConstStructView = "FStruct option"

definition GetScriptStruct :: "FConstStructView \<Rightarrow> FName option" where
  "GetScriptStruct v = map_option ScriptStruct v"

definition INDEX_NONE :: int where
  "INDEX_NONE = - 1"

definition INVALID_REPLICATION_INDEX :: nat where
  "INVALID_REPLICATION_INDEX = 0"

record FCommonItemSharedData =
  PrimaryAssetId :: FPrimaryAssetId
  GameplayTags :: "FName list"
  MaxStackSize :: "32 word"

text \<open>
  Array indices are \<open>int32\<close> and \<open>RepIndex\<close> is the \<open>uint32\<close> \<open>GetIndex() + 1\<close> of an array
  position, so neither can wrap around; they are \<open>int\<close> (for \<open>INDEX_NONE\<close>) and \<open>nat\<close>.
  Checksums are 32-bit words, zero meaning "not computed".
\<close>

record FCommonInventoryRegistryRecord =
  DefaultPayload :: FConstStructView
  CustomData :: FConstStructView
  SharedData :: FCommonItemSharedData
  AssetPath :: string
  DefaultPayloadIndex :: int
  CustomDataIndex :: int
  RepIndex :: nat
  Checksum :: "32 word"

definition GetPrimaryAssetId :: "FCommonInventoryRegistryRecord \<Rightarrow> FPrimaryAssetId" where
  "GetPrimaryAssetId r = PrimaryAssetId (SharedData r)"

definition GetPrimaryAssetType :: "FCommonInventoryRegistryRecord \<Rightarrow> FName" where
  "GetPrimaryAssetType r = PrimaryAssetType (GetPrimaryAssetId r)"

definition GetPrimaryAssetName :: "FCommonInventoryRegistryRecord \<Rightarrow> FName" where
  "GetPrimaryAssetName r = PrimaryAssetName (GetPrimaryAssetId r)"

text \<open>\<open>operator<\<close> on records.\<close>

definition record_less ::
  "FCommonInventoryRegistryRecord \<Rightarrow> FCommonInventoryRegistryRecord \<Rightarrow> bool" where
  "record_less Lhs Rhs =
     (if GetPrimaryAssetType Lhs \<noteq> GetPrimaryAssetType Rhs
      then GetPrimaryAssetType Lhs < GetPrimaryAssetType Rhs
      else GetPrimaryAssetName Lhs < GetPrimaryAssetName Rhs)"

definition InvalidateChecksum :: "FCommonInventoryRegistryRecord \<Rightarrow> FCommonInventoryRegistryRecord" where
  "InvalidateChecksum r = r\<lparr>Checksum := 0\<rparr>"

text \<open>\<open>HasIdenticalData\<close> and its \<open>Identical\<close> lambda; \<open>HasIdenticalDataFast\<close>.\<close>

definition Identical :: "FConstStructView \<Rightarrow> FConstStructView \<Rightarrow> bool" where
  "Identical Lhs Rhs =
     (if GetScriptStruct Lhs = GetScriptStruct Rhs
      then Lhs = None \<or> map_option Memory Lhs = map_option Memory Rhs
      else False)"

definition HasIdenticalData ::
  "FCommonInventoryRegistryRecord \<Rightarrow> FCommonInventoryRegistryRecord \<Rightarrow> bool" where
  "HasIdenticalData this Other =
     (if SharedData this = SharedData Other \<and> AssetPath this = AssetPath Other
      then Identical (DefaultPayload this) (DefaultPayload Other)
           \<and> Identical (CustomData this) (CustomData Other)
      else False)"

definition HasIdenticalDataFast ::
  "FCommonInventoryRegistryRecord \<Rightarrow> FCommonInventoryRegistryRecord \<Rightarrow> bool" where
  "HasIdenticalDataFast this Other = (Checksum this = Checksum Other)"

text \<open>
  The engine functions the registry calls are parameters of the model, bundled in one
  record: the three \<open>FCrc\<close> hashes, the textual export of a struct
  (\<open>CommonInventory::ExportScriptStruct\<close>, for the shared data and for a payload view),
  and the archive codecs of section "Serializer".
\<close>

type_synonym byte = "8 word"

record FCustomVersion =
  VersionKey :: "32 word list"
  VersionNumber :: int

record FPersistedState =
  PersistedRecords :: "FCommonInventoryRegistryRecord list"
  PersistedCustomData :: "FConstStructView list"

record FEngine =
  StrCrc32 :: "string \<Rightarrow> 32 word \<Rightarrow> 32 word"
  TypeCrc32 :: "32 word \<Rightarrow> 32 word \<Rightarrow> 32 word"
  MemCrc32 :: "byte list \<Rightarrow> 32 word"
  ExportSharedData :: "FCommonItemSharedData \<Rightarrow> string"
  ExportScriptStruct :: "FConstStructView \<Rightarrow> string"
  PutUInt32 :: "32 word \<Rightarrow> byte list"
  GetUInt32 :: "byte list \<Rightarrow> (32 word \<times> byte list) option"
  PutBool :: "bool \<Rightarrow> byte list"
  GetBool :: "byte list \<Rightarrow> (bool \<times> byte list) option"
  PutPath :: "string \<Rightarrow> byte list"
  GetPath :: "byte list \<Rightarrow> (string \<times> byte list) option"
  PutVersions :: "FCustomVersion list \<Rightarrow> byte list"
  GetVersions :: "byte list \<Rightarrow> (FCustomVersion list \<times> byte list) option"
  SaveItem :: "bool \<Rightarrow> FPersistedState \<Rightarrow> (byte list \<times> FCustomVersion list) option"
  LoadItem :: "bool \<Rightarrow> FCustomVersion list \<Rightarrow> byte list \<Rightarrow> FPersistedState \<times> bool \<times> bool"

text \<open>\<open>FCommonInventoryRegistryRecord::GetChecksum\<close>: the value, and the record with its cache.\<close>

definition Record_GetChecksum ::
  "FEngine \<Rightarrow> FCommonInventoryRegistryRecord \<Rightarrow> 32 word \<times> FCommonInventoryRegistryRecord" where
  "Record_GetChecksum E r =
     (if Checksum r = 0
      then
        let c1 = StrCrc32 E (ExportSharedData E (SharedData r)) (Checksum r);
            c2 = StrCrc32 E (ExportScriptStruct E (DefaultPayload r)) c1;
            c3 = StrCrc32 E (ExportScriptStruct E (CustomData r)) c2;
            c4 = StrCrc32 E (AssetPath r) c3
        in (c4, r\<lparr>Checksum := c4\<rparr>)
      else (Checksum r, r))"

section \<open>Registry state\<close>

record FArchetypeGroup =
  GroupType :: FName
  Begin :: nat
  Offset :: nat
  GroupChecksum :: "32 word"

text \<open>
  The two \<open>TMap\<close>s of the state are only looked up, never iterated, so they are maps.
\<close>

record FCommonInventoryRegistryState =
  DataContainer :: "FCommonInventoryRegistryRecord list"
  CustomDataContainer :: "FConstStructView list"
  Archetypes :: "FArchetypeGroup list"
  DataMap :: "FPrimaryAssetId \<rightharpoonup> nat"
  ReplicationMap :: "nat \<rightharpoonup> nat"
  RepIndexEncodingBitsNum :: nat
  StateChecksum :: "32 word"

definition FCommonInventoryRegistryState_default :: FCommonInventoryRegistryState where
  "FCommonInventoryRegistryState_default =
     \<lparr>DataContainer = [], CustomDataContainer = [], Archetypes = [], DataMap = Map.empty,
      ReplicationMap = Map.empty, RepIndexEncodingBitsNum = 0, StateChecksum = 0\<rparr>"

text \<open>
  A failed \<open>check\<close>, \<open>checkf\<close> or \<open>verify\<close>, an array subscript out of range and a
  dereferenced null pointer end the process. Operations that can do so return an option:
  \<open>None\<close> is the aborted call.
\<close>

definition IsValidIndex :: "'a list \<Rightarrow> int \<Rightarrow> bool" where
  "IsValidIndex xs i = (0 \<le> i \<and> i < int (length xs))"

definition At :: "'a list \<Rightarrow> int \<Rightarrow> 'a option" where
  "At xs i = (if IsValidIndex xs i then Some (xs ! nat i) else None)"

definition RemoveAt :: "'a list \<Rightarrow> nat \<Rightarrow> 'a list" where
  "RemoveAt xs i = take i xs @ drop (Suc i) xs"

definition Insert :: "'a list \<Rightarrow> 'a \<Rightarrow> nat \<Rightarrow> 'a list" where
  "Insert xs x i = take i xs @ x # drop i xs"

definition HasRecords :: "FCommonInventoryRegistryState \<Rightarrow> bool" where
  "HasRecords s = (DataContainer s \<noteq> [])"

definition ContainsRecord :: "FCommonInventoryRegistryState \<Rightarrow> FPrimaryAssetId \<Rightarrow> bool" where
  "ContainsRecord s PrimaryAssetId' = (DataMap s PrimaryAssetId' \<noteq> None)"

definition GetRecordsNum :: "FCommonInventoryRegistryState \<Rightarrow> nat" where
  "GetRecordsNum s = length (DataContainer s)"

text \<open>
  \<open>GetRecordPtr\<close>: \<open>Some None\<close> is the null pointer, \<open>Some (Some r)\<close> the record found, and
  \<open>None\<close> the aborted subscript. \<open>GetRecord\<close> is the \<open>FindChecked\<close> variant.
\<close>

definition GetRecordPtr ::
  "FCommonInventoryRegistryState \<Rightarrow> FPrimaryAssetId \<Rightarrow> FCommonInventoryRegistryRecord option option" where
  "GetRecordPtr s PrimaryAssetId' =
     (case DataMap s PrimaryAssetId' of
        None \<Rightarrow> Some None
      | Some Idx \<Rightarrow> map_option Some (At (DataContainer s) (int Idx)))"


definition GetRecordFromReplication ::
  "FCommonInventoryRegistryState \<Rightarrow> nat \<Rightarrow> FCommonInventoryRegistryRecord option option" where
  "GetRecordFromReplication s RepIndex' =
     (case ReplicationMap s RepIndex' of
        None \<Rightarrow> Some None
      | Some Idx \<Rightarrow> map_option Some (At (DataContainer s) (int Idx)))"

text \<open>\<open>FindArchetypeGroup\<close>: the position of the first group of the type, by \<open>Algo::FindBy\<close>.\<close>

fun FindBy :: "('a \<Rightarrow> bool) \<Rightarrow> 'a list \<Rightarrow> nat option" where
  "FindBy P [] = None"
| "FindBy P (x # xs) = (if P x then Some 0 else map_option Suc (FindBy P xs))"

definition FindArchetypeGroup :: "FArchetypeGroup list \<Rightarrow> FName \<Rightarrow> nat option" where
  "FindArchetypeGroup groups PrimaryAssetType' = FindBy (\<lambda>g. GroupType g = PrimaryAssetType') groups"

definition ContainsArchetype :: "FCommonInventoryRegistryState \<Rightarrow> FName \<Rightarrow> bool" where
  "ContainsArchetype s PrimaryAssetType' = (FindArchetypeGroup (Archetypes s) PrimaryAssetType' \<noteq> None)"

text \<open>
  \<open>FMath::CeilLogTwo\<close> is the smallest \<open>N\<close> with \<open>Arg \<le> 2 ^ N\<close> (and 0 for 0): the bit
  length of \<open>Arg - 1\<close>.
\<close>

fun bit_length :: "nat \<Rightarrow> nat" where
  "bit_length n = (if n = 0 then 0 else Suc (bit_length (n div 2)))"

declare bit_length.simps [simp del]

definition CeilLogTwo :: "nat \<Rightarrow> nat" where
  "CeilLogTwo Arg = bit_length (Arg - 1)"

text \<open>\<open>Algo::IsSorted\<close> with \<open>operator<\<close>: no element is less than its predecessor.\<close>

fun IsSorted :: "FCommonInventoryRegistryRecord list \<Rightarrow> bool" where
  "IsSorted [] = True"
| "IsSorted [x] = True"
| "IsSorted (x # y # zs) = (\<not> record_less y x \<and> IsSorted (y # zs))"

subsection \<open>FixupDependencies\<close>

definition RefreshViewData :: "FConstStructView list \<Rightarrow> int \<Rightarrow> FConstStructView" where
  "RefreshViewData Container InIndex =
     (if IsValidIndex Container InIndex then Container ! nat InIndex else None)"

text \<open>
  The archetype step of the loop body. \<open>ArchetypeIterator\<close> is null while no group has
  been emplaced and points at the last group afterwards.
\<close>

definition RefreshArchetypes :: "FArchetypeGroup list \<Rightarrow> FName \<Rightarrow> nat \<Rightarrow> FArchetypeGroup list" where
  "RefreshArchetypes groups t i =
     (let groups' =
        (if groups = [] \<or> GroupType (last groups) \<noteq> t
         then groups @ [\<lparr>GroupType = t, Begin = i, Offset = 0, GroupChecksum = 0\<rparr>]
         else groups)
      in butlast groups' @ [(last groups')\<lparr>Offset := Offset (last groups') + 1\<rparr>])"

text \<open>
  The loop over \<open>EnumerateRange(DataContainer)\<close>: \<open>i\<close> is \<open>GetIndex()\<close>, and the state is the
  records already visited, the two maps and the groups.
\<close>

fun FixupDependencies_loop ::
  "FConstStructView list \<Rightarrow> nat \<Rightarrow> FCommonInventoryRegistryRecord list \<Rightarrow>
   FCommonInventoryRegistryRecord list \<times> (FPrimaryAssetId \<rightharpoonup> nat) \<times> (nat \<rightharpoonup> nat) \<times> FArchetypeGroup list \<Rightarrow>
   (FCommonInventoryRegistryRecord list \<times> (FPrimaryAssetId \<rightharpoonup> nat) \<times> (nat \<rightharpoonup> nat) \<times> FArchetypeGroup list) option" where
  "FixupDependencies_loop Container i [] acc = Some acc"
| "FixupDependencies_loop Container i (RegistryData # rest) (visited, dm, rm, groups) =
     (if dm (GetPrimaryAssetId RegistryData) \<noteq> None then None
      else
        FixupDependencies_loop Container (Suc i) rest
          (visited @ [RegistryData\<lparr>
              RepIndex := i + 1,
              DefaultPayload := RefreshViewData Container (DefaultPayloadIndex RegistryData),
              CustomData := RefreshViewData Container (CustomDataIndex RegistryData)\<rparr>],
           dm(GetPrimaryAssetId RegistryData \<mapsto> i),
           rm(i + 1 \<mapsto> i),
           RefreshArchetypes groups (GetPrimaryAssetType RegistryData) i))"

definition MigrateChecksum :: "FArchetypeGroup list \<Rightarrow> FArchetypeGroup \<Rightarrow> FArchetypeGroup" where
  "MigrateChecksum CachedArchetypes Archetype =
     (case FindArchetypeGroup CachedArchetypes (GroupType Archetype) of
        Some k \<Rightarrow> Archetype\<lparr>GroupChecksum := GroupChecksum (CachedArchetypes ! k)\<rparr>
      | None \<Rightarrow> Archetype)"

definition FixupDependencies ::
  "bool \<Rightarrow> FCommonInventoryRegistryState \<Rightarrow> FCommonInventoryRegistryState option" where
  "FixupDependencies bMigrateArchetypeChecksum s =
     (if \<not> IsSorted (DataContainer s) then None
      else
        case FixupDependencies_loop (CustomDataContainer s) 0 (DataContainer s)
               ([], Map.empty, Map.empty, []) of
          None \<Rightarrow> None
        | Some (records, dm, rm, groups) \<Rightarrow>
            Some (s\<lparr>
              DataContainer := records,
              Archetypes :=
                (if bMigrateArchetypeChecksum then map (MigrateChecksum (Archetypes s)) groups
                 else groups),
              DataMap := dm,
              ReplicationMap := rm,
              RepIndexEncodingBitsNum := CeilLogTwo (length (DataContainer s) + 1),
              StateChecksum := 0\<rparr>))"

subsection \<open>Payload slots\<close>

text \<open>
  The lambdas \<open>CollectCustomData\<close>, \<open>RefreshCustomData\<close> and \<open>AppendCustomData\<close> are called
  once with the \<open>DefaultPayload\<close> view and index of a record and once with its \<open>CustomData\<close>
  view and index, passed by reference; the slot says which pair is meant.
\<close>

datatype EPayloadSlot = DefaultPayloadSlot | CustomDataSlot

fun SlotView :: "EPayloadSlot \<Rightarrow> FCommonInventoryRegistryRecord \<Rightarrow> FConstStructView" where
  "SlotView DefaultPayloadSlot r = DefaultPayload r"
| "SlotView CustomDataSlot r = CustomData r"

fun SlotIndex :: "EPayloadSlot \<Rightarrow> FCommonInventoryRegistryRecord \<Rightarrow> int" where
  "SlotIndex DefaultPayloadSlot r = DefaultPayloadIndex r"
| "SlotIndex CustomDataSlot r = CustomDataIndex r"

fun SetSlot ::
  "EPayloadSlot \<Rightarrow> FConstStructView \<Rightarrow> int \<Rightarrow> FCommonInventoryRegistryRecord \<Rightarrow> FCommonInventoryRegistryRecord" where
  "SetSlot DefaultPayloadSlot v i r = r\<lparr>DefaultPayload := v, DefaultPayloadIndex := i\<rparr>"
| "SetSlot CustomDataSlot v i r = r\<lparr>CustomData := v, CustomDataIndex := i\<rparr>"

subsection \<open>Reset\<close>

text \<open>
  \<open>TArray::Sort\<close> orders by \<open>operator<\<close>, that is by the pair of type and name. The engine
  sort is not stable; two records it may reorder have the same identifier, and then
  \<open>FixupDependencies\<close> aborts, so the model sorts by insertion.
\<close>

definition RecordKey :: "FCommonInventoryRegistryRecord \<Rightarrow> FName \<times> FName" where
  "RecordKey r = (GetPrimaryAssetType r, GetPrimaryAssetName r)"

definition Sort :: "FCommonInventoryRegistryRecord list \<Rightarrow> FCommonInventoryRegistryRecord list" where
  "Sort xs = sort_key RecordKey xs"

fun CollectCustomData ::
  "EPayloadSlot \<Rightarrow> FCommonInventoryRegistryRecord list \<Rightarrow> FConstStructView list \<Rightarrow>
   FCommonInventoryRegistryRecord list \<times> FConstStructView list" where
  "CollectCustomData slot [] CustomData' = ([], CustomData')"
| "CollectCustomData slot (Record # rest) CustomData' =
     (if SlotView slot Record \<noteq> None
      then
        (case CollectCustomData slot rest (CustomData' @ [SlotView slot Record]) of
           (rs, cd) \<Rightarrow> (SetSlot slot (SlotView slot Record) (int (length CustomData')) Record # rs, cd))
      else
        (case CollectCustomData slot rest CustomData' of
           (rs, cd) \<Rightarrow> (SetSlot slot (SlotView slot Record) INDEX_NONE Record # rs, cd)))"

definition Reset ::
  "FCommonInventoryRegistryState \<Rightarrow> FCommonInventoryRegistryRecord list \<Rightarrow>
   FCommonInventoryRegistryState option" where
  "Reset s InRegistryData =
     (case CollectCustomData DefaultPayloadSlot (Sort InRegistryData) [] of
        (dc1, cd1) \<Rightarrow>
          (case CollectCustomData CustomDataSlot dc1 cd1 of
             (dc2, cd2) \<Rightarrow>
               FixupDependencies False
                 (s\<lparr>DataContainer := map InvalidateChecksum dc2, CustomDataContainer := cd2\<rparr>)))"

subsection \<open>RemoveCustomData\<close>

definition ShiftIndex ::
  "FConstStructView list \<Rightarrow> int \<Rightarrow> EPayloadSlot \<Rightarrow> FCommonInventoryRegistryRecord \<Rightarrow>
   FCommonInventoryRegistryRecord option" where
  "ShiftIndex Container InCustomDataIndex slot RegistryRecord =
     (if SlotIndex slot RegistryRecord > InCustomDataIndex
      then
        (case At Container (SlotIndex slot RegistryRecord - 1) of
           None \<Rightarrow> None
         | Some v \<Rightarrow> Some (SetSlot slot v (SlotIndex slot RegistryRecord - 1) RegistryRecord))
      else Some RegistryRecord)"

definition ShiftRecord ::
  "FConstStructView list \<Rightarrow> int \<Rightarrow> FCommonInventoryRegistryRecord \<Rightarrow>
   FCommonInventoryRegistryRecord option" where
  "ShiftRecord Container InCustomDataIndex RegistryRecord =
     (case ShiftIndex Container InCustomDataIndex DefaultPayloadSlot RegistryRecord of
        None \<Rightarrow> None
      | Some r \<Rightarrow> ShiftIndex Container InCustomDataIndex CustomDataSlot r)"

definition RemoveCustomData ::
  "int \<Rightarrow> FCommonInventoryRegistryState \<Rightarrow> FCommonInventoryRegistryState option" where
  "RemoveCustomData InCustomDataIndex s =
     (if IsValidIndex (CustomDataContainer s) InCustomDataIndex
      then
        (let Container = RemoveAt (CustomDataContainer s) (nat InCustomDataIndex) in
         if IsValidIndex Container InCustomDataIndex
         then
           (case those (map (ShiftRecord Container InCustomDataIndex) (DataContainer s)) of
              None \<Rightarrow> None
            | Some records \<Rightarrow> Some (s\<lparr>DataContainer := records, CustomDataContainer := Container\<rparr>))
         else Some (s\<lparr>CustomDataContainer := Container\<rparr>))
      else Some s)"

subsection \<open>AppendData\<close>

text \<open>
  \<open>Algo::LowerBound\<close> is engine code; on a sorted range it returns the first position whose
  element is not less than the value.
\<close>

definition LowerBound ::
  "FCommonInventoryRegistryRecord list \<Rightarrow> FCommonInventoryRegistryRecord \<Rightarrow> nat" where
  "LowerBound xs v = length (takeWhile (\<lambda>x. record_less x v) xs)"

definition InvalidateGroup :: "FArchetypeGroup list \<Rightarrow> nat \<Rightarrow> FArchetypeGroup list" where
  "InvalidateGroup groups k = groups[k := (groups ! k)\<lparr>GroupChecksum := 0\<rparr>]"

text \<open>
  \<open>RefreshCustomData\<close> of the update branch, for the record at position \<open>i\<close>. When the types
  match, \<open>CopyScriptStruct\<close> writes the incoming value over the container slot
  \<open>TargetIndex\<close>, which is the memory the existing view shows; writing over a slot that
  holds no struct or a struct of another type has no defined result.
\<close>

definition RefreshCustomData ::
  "EPayloadSlot \<Rightarrow> FConstStructView \<Rightarrow> nat \<Rightarrow> FCommonInventoryRegistryState \<Rightarrow>
   FCommonInventoryRegistryState option" where
  "RefreshCustomData slot InStructView i s =
     (let ExistingRecord = DataContainer s ! i;
          ExistingStructView = SlotView slot ExistingRecord;
          TargetIndex = SlotIndex slot ExistingRecord
      in
      if ExistingStructView \<noteq> None \<and> TargetIndex \<noteq> INDEX_NONE
         \<and> GetScriptStruct ExistingStructView = GetScriptStruct InStructView
      then
        (case At (CustomDataContainer s) TargetIndex of
           None \<Rightarrow> None
         | Some Dest \<Rightarrow>
             if GetScriptStruct Dest \<noteq> GetScriptStruct ExistingStructView then None
             else Some (s\<lparr>
               DataContainer := (DataContainer s)[i := SetSlot slot InStructView TargetIndex ExistingRecord],
               CustomDataContainer := (CustomDataContainer s)[nat TargetIndex := InStructView]\<rparr>))
      else
        (case (if ExistingStructView \<noteq> None \<and> TargetIndex \<noteq> INDEX_NONE
               then RemoveCustomData TargetIndex s else Some s) of
           None \<Rightarrow> None
         | Some s1 \<Rightarrow>
             if InStructView \<noteq> None
             then Some (s1\<lparr>
               DataContainer := (DataContainer s1)
                 [i := SetSlot slot InStructView (int (length (CustomDataContainer s1))) (DataContainer s1 ! i)],
               CustomDataContainer := CustomDataContainer s1 @ [InStructView]\<rparr>)
             else Some (s1\<lparr>
               DataContainer := (DataContainer s1)[i := SetSlot slot None INDEX_NONE (DataContainer s1 ! i)]\<rparr>)))"

definition AppendCustomData ::
  "FConstStructView \<Rightarrow> FConstStructView list \<Rightarrow> int \<times> FConstStructView list" where
  "AppendCustomData InStructView Container =
     (if InStructView \<noteq> None then (int (length Container), Container @ [InStructView])
      else (INDEX_NONE, Container))"

definition AppendData_update ::
  "FCommonInventoryRegistryState \<Rightarrow> FCommonInventoryRegistryRecord \<Rightarrow>
   (bool \<times> FCommonInventoryRegistryState) option" where
  "AppendData_update s InRecord =
     (case DataMap s (GetPrimaryAssetId InRecord) of
        None \<Rightarrow> None
      | Some i \<Rightarrow>
          if \<not> i < length (DataContainer s) then None
          else
            (case RefreshCustomData DefaultPayloadSlot (DefaultPayload InRecord) i
                    (s\<lparr>DataContainer := (DataContainer s)
                        [i := (DataContainer s ! i)\<lparr>SharedData := SharedData InRecord,
                                                   AssetPath := AssetPath InRecord\<rparr>]\<rparr>) of
               None \<Rightarrow> None
             | Some s1 \<Rightarrow>
                 (case RefreshCustomData CustomDataSlot (CustomData InRecord) i s1 of
                    None \<Rightarrow> None
                  | Some s2 \<Rightarrow>
                      (case FindArchetypeGroup (Archetypes s2)
                              (GetPrimaryAssetType (DataContainer s2 ! i)) of
                         None \<Rightarrow> None
                       | Some k \<Rightarrow>
                           Some (False, s2\<lparr>
                             DataContainer := (DataContainer s2)
                               [i := InvalidateChecksum (DataContainer s2 ! i)],
                             Archetypes := InvalidateGroup (Archetypes s2) k,
                             StateChecksum := 0\<rparr>)))))"

definition AppendData_insert ::
  "FCommonInventoryRegistryState \<Rightarrow> FCommonInventoryRegistryRecord \<Rightarrow>
   (bool \<times> FCommonInventoryRegistryState) option" where
  "AppendData_insert s InRecord =
     (let RecordIndex = LowerBound (DataContainer s) InRecord;
          groups = (case FindArchetypeGroup (Archetypes s) (GetPrimaryAssetType InRecord) of
                      Some k \<Rightarrow> InvalidateGroup (Archetypes s) k
                    | None \<Rightarrow> Archetypes s)
      in
      case AppendCustomData (DefaultPayload InRecord) (CustomDataContainer s) of
        (DefaultPayloadIndex', c1) \<Rightarrow>
          (case AppendCustomData (CustomData InRecord) c1 of
             (CustomDataIndex', c2) \<Rightarrow>
               map_option (Pair True)
                 (FixupDependencies True
                    (s\<lparr>DataContainer :=
                         Insert (DataContainer s)
                           ((InvalidateChecksum InRecord)
                              \<lparr>DefaultPayloadIndex := DefaultPayloadIndex',
                               CustomDataIndex := CustomDataIndex'\<rparr>)
                           RecordIndex,
                       CustomDataContainer := c2,
                       Archetypes := groups\<rparr>))))"

text \<open>The flag is the returned \<open>bool\<close>: true for an insertion, false for an update.\<close>

definition AppendData ::
  "FCommonInventoryRegistryState \<Rightarrow> FCommonInventoryRegistryRecord \<Rightarrow>
   (bool \<times> FCommonInventoryRegistryState) option" where
  "AppendData s InRecord =
     (if ContainsRecord s (GetPrimaryAssetId InRecord) then AppendData_update s InRecord
      else AppendData_insert s InRecord)"

subsection \<open>RemoveData\<close>

text \<open>
  \<open>RegistryRecord\<close> points into \<open>DataContainer\<close>, at position \<open>i\<close>; the record is read again
  after each \<open>RemoveCustomData\<close>.
\<close>

definition RemoveData_slot ::
  "EPayloadSlot \<Rightarrow> nat \<Rightarrow> FCommonInventoryRegistryState \<Rightarrow> FCommonInventoryRegistryState option" where
  "RemoveData_slot slot i s =
     (if SlotView slot (DataContainer s ! i) \<noteq> None
      then
        (if SlotIndex slot (DataContainer s ! i) = INDEX_NONE then None
         else RemoveCustomData (SlotIndex slot (DataContainer s ! i)) s)
      else Some s)"

definition RemoveData ::
  "FCommonInventoryRegistryState \<Rightarrow> FPrimaryAssetId \<Rightarrow>
   (bool \<times> FCommonInventoryRegistryState) option" where
  "RemoveData s PrimaryAssetId' =
     (case DataMap s PrimaryAssetId' of
        None \<Rightarrow> Some (False, s)
      | Some i \<Rightarrow>
          if \<not> i < length (DataContainer s) then None
          else
            (case RemoveData_slot DefaultPayloadSlot i s of
               None \<Rightarrow> None
             | Some s1 \<Rightarrow>
                 (case RemoveData_slot CustomDataSlot i s1 of
                    None \<Rightarrow> None
                  | Some s2 \<Rightarrow>
                      (case FindArchetypeGroup (Archetypes s2)
                              (GetPrimaryAssetType (DataContainer s2 ! i)) of
                         None \<Rightarrow> None
                       | Some k \<Rightarrow>
                           (case DataMap s2 (GetPrimaryAssetId (DataContainer s2 ! i)) of
                              None \<Rightarrow> None
                            | Some Idx \<Rightarrow>
                                if \<not> Idx < length (DataContainer s2) then None
                                else
                                  map_option (Pair True)
                                    (FixupDependencies True
                                       (s2\<lparr>DataContainer := RemoveAt (DataContainer s2) Idx,
                                           Archetypes := InvalidateGroup (Archetypes s2) k\<rparr>)))))))"

subsection \<open>GetChecksum\<close>

text \<open>
  The caches are \<open>mutable\<close>, so the lazy checksum returns its value and the state with the
  caches filled.
\<close>

fun GetChecksum_records ::
  "FEngine \<Rightarrow> FCommonInventoryRegistryRecord list \<Rightarrow> 32 word \<Rightarrow>
   32 word \<times> FCommonInventoryRegistryRecord list" where
  "GetChecksum_records E [] c = (c, [])"
| "GetChecksum_records E (Record # rest) c =
     (case Record_GetChecksum E Record of
        (v, Record') \<Rightarrow>
          (case GetChecksum_records E rest (TypeCrc32 E v c) of
             (c', rest') \<Rightarrow> (c', Record' # rest')))"

fun GetChecksum_groups ::
  "FEngine \<Rightarrow> FArchetypeGroup list \<Rightarrow> FCommonInventoryRegistryRecord list \<Rightarrow> 32 word \<Rightarrow>
   32 word \<times> FArchetypeGroup list \<times> FCommonInventoryRegistryRecord list" where
  "GetChecksum_groups E [] records c = (c, [], records)"
| "GetChecksum_groups E (Archetype # rest) records c =
     (case (if GroupChecksum Archetype = 0
            then
              (case GetChecksum_records E
                      (take (Offset Archetype) (drop (Begin Archetype) records))
                      (GroupChecksum Archetype) of
                 (v, rs) \<Rightarrow>
                   (v, take (Begin Archetype) records @ rs
                       @ drop (Begin Archetype + Offset Archetype) records))
            else (GroupChecksum Archetype, records)) of
        (gc, records') \<Rightarrow>
          (case GetChecksum_groups E rest records' (TypeCrc32 E gc c) of
             (c', rest', records'') \<Rightarrow>
               (c', Archetype\<lparr>GroupChecksum := gc\<rparr> # rest', records'')))"

definition GetChecksum ::
  "FEngine \<Rightarrow> FCommonInventoryRegistryState \<Rightarrow> 32 word \<times> FCommonInventoryRegistryState" where
  "GetChecksum E s =
     (if StateChecksum s = 0
      then
        (case GetChecksum_groups E (Archetypes s) (DataContainer s) (StateChecksum s) of
           (c, groups, records) \<Rightarrow>
             (c, s\<lparr>DataContainer := records, Archetypes := groups, StateChecksum := c\<rparr>))
      else (StateChecksum s, s))"

subsection \<open>DiffRecords\<close>

fun PendingRemoveRecords ::
  "(FCommonInventoryRegistryRecord \<Rightarrow> FCommonInventoryRegistryRecord \<Rightarrow> bool) \<Rightarrow>
   FCommonInventoryRegistryState \<Rightarrow> FCommonInventoryRegistryRecord list \<Rightarrow>
   FPrimaryAssetId list option" where
  "PendingRemoveRecords Identical' SecondState [] = Some []"
| "PendingRemoveRecords Identical' SecondState (FirstRecord # rest) =
     (case GetRecordPtr SecondState (GetPrimaryAssetId FirstRecord) of
        None \<Rightarrow> None
      | Some found \<Rightarrow>
          (case PendingRemoveRecords Identical' SecondState rest of
             None \<Rightarrow> None
           | Some ids \<Rightarrow>
               (case found of
                  Some SecondRecord \<Rightarrow>
                    if Identical' SecondRecord FirstRecord
                    then Some (GetPrimaryAssetId FirstRecord # ids) else Some ids
                | None \<Rightarrow> Some ids)))"

text \<open>\<open>verify(RemoveData(id))\<close> for each pending identifier.\<close>

fun RemoveAll_verified ::
  "FPrimaryAssetId list \<Rightarrow> FCommonInventoryRegistryState \<Rightarrow> FCommonInventoryRegistryState option" where
  "RemoveAll_verified [] s = Some s"
| "RemoveAll_verified (InPrimaryAssetId # rest) s =
     (case RemoveData s InPrimaryAssetId of
        Some (True, s') \<Rightarrow> RemoveAll_verified rest s'
      | _ \<Rightarrow> None)"

definition DiffRecords ::
  "FCommonInventoryRegistryState \<Rightarrow> FCommonInventoryRegistryState \<Rightarrow>
   FCommonInventoryRegistryState option" where
  "DiffRecords s InBaseState =
     (if HasRecords s \<and> HasRecords InBaseState
      then
        (let FirstState = (if GetRecordsNum s > GetRecordsNum InBaseState then InBaseState else s);
             SecondState = (if GetRecordsNum s > GetRecordsNum InBaseState then s else InBaseState);
             Identical' = (if StateChecksum s \<noteq> 0 \<and> StateChecksum InBaseState \<noteq> 0
                           then HasIdenticalDataFast else HasIdenticalData)
         in
         case PendingRemoveRecords Identical' SecondState (DataContainer FirstState) of
           None \<Rightarrow> None
         | Some Pending \<Rightarrow>
             if length Pending = GetRecordsNum s then Reset s []
             else RemoveAll_verified Pending s)
      else Some s)"

section \<open>Serializer\<close>

text \<open>
  An archive is the list of its bytes; a loading archive is the list of the bytes not yet
  read. The engine codecs of \<open>FEngine\<close> read a value off the front of the list and return
  the rest; \<open>None\<close> is a failed read, which sets the error flag of the archive. Input and
  output errors of the underlying file are not modelled.
\<close>

definition Magic :: "32 word list" where
  "Magic = [0x6D6D6F43, 0x49206E6F, 0x6E65766E, 0x79726F74]"

definition InitialVersion :: "32 word" where
  "InitialVersion = 0"

definition VersionPlusOne :: "32 word" where
  "VersionPlusOne = InitialVersion + 1"

definition LatestVersion :: "32 word" where
  "LatestVersion = VersionPlusOne - 1"

record FInventoryRegistryHeader =
  Version :: "32 word"
  DataSourceClass :: string
  VersionContainer :: "FCustomVersion list"
  HeaderChecksum :: "32 word"
  bIsCooked :: bool

definition PutGuid :: "FEngine \<Rightarrow> 32 word list \<Rightarrow> byte list" where
  "PutGuid E g = concat (map (PutUInt32 E) g)"

definition GetGuid :: "FEngine \<Rightarrow> byte list \<Rightarrow> (32 word list \<times> byte list) option" where
  "GetGuid E bytes =
     (case GetUInt32 E bytes of None \<Rightarrow> None | Some (a, r1) \<Rightarrow>
      case GetUInt32 E r1 of None \<Rightarrow> None | Some (b, r2) \<Rightarrow>
      case GetUInt32 E r2 of None \<Rightarrow> None | Some (c, r3) \<Rightarrow>
      case GetUInt32 E r3 of None \<Rightarrow> None | Some (d, r4) \<Rightarrow> Some ([a, b, c, d], r4))"

text \<open>\<open>FInventoryRegistryHeader::Serialize\<close> on a saving archive: the bytes written.\<close>

definition Header_Save :: "FEngine \<Rightarrow> FInventoryRegistryHeader \<Rightarrow> byte list" where
  "Header_Save E Header =
     PutGuid E Magic @ PutUInt32 E (Version Header) @ PutUInt32 E (HeaderChecksum Header)
     @ PutBool E (bIsCooked Header) @ PutPath E (DataSourceClass Header)
     @ PutVersions E (VersionContainer Header)"

text \<open>
  \<open>FInventoryRegistryHeader::Serialize\<close> on a loading archive returns false when the magic
  differs, and \<open>!Ar.IsError()\<close> otherwise, which is false as soon as one read has failed.
  The result is the header and the unread bytes, or \<open>None\<close> for false.
\<close>

definition Header_Load ::
  "FEngine \<Rightarrow> byte list \<Rightarrow> (FInventoryRegistryHeader \<times> byte list) option" where
  "Header_Load E bytes =
     (case GetGuid E bytes of None \<Rightarrow> None | Some (m, r0) \<Rightarrow>
      if m \<noteq> Magic then None
      else
        case GetUInt32 E r0 of None \<Rightarrow> None | Some (VersionValue, r1) \<Rightarrow>
        case GetUInt32 E r1 of None \<Rightarrow> None | Some (c, r2) \<Rightarrow>
        case GetBool E r2 of None \<Rightarrow> None | Some (cooked, r3) \<Rightarrow>
        case GetPath E r3 of None \<Rightarrow> None | Some (path, r4) \<Rightarrow>
        case GetVersions E r4 of None \<Rightarrow> None | Some (versions, r5) \<Rightarrow>
          Some (\<lparr>Version = VersionValue, DataSourceClass = path, VersionContainer = versions,
                 HeaderChecksum = c, bIsCooked = cooked\<rparr>, r5))"

text \<open>
  Reflection serializes the \<open>UPROPERTY\<close> members only: of the state its two containers, of
  a record its shared data, asset path and the two indices. The other members of a loaded
  record are those of a default-constructed record.
\<close>

definition UProperties :: "FCommonInventoryRegistryRecord \<Rightarrow> FCommonInventoryRegistryRecord" where
  "UProperties r =
     r\<lparr>DefaultPayload := None, CustomData := None, RepIndex := INVALID_REPLICATION_INDEX,
       Checksum := 0\<rparr>"

definition Persisted :: "FCommonInventoryRegistryState \<Rightarrow> FPersistedState" where
  "Persisted s =
     \<lparr>PersistedRecords = map UProperties (DataContainer s),
      PersistedCustomData = CustomDataContainer s\<rparr>"

text \<open>
  \<open>SaveState\<close>: the flag and the bytes written to the archive. \<open>SaveItem\<close> is
  \<open>StaticStruct()->SerializeItem\<close> into the buffer archive; it yields the buffer and the
  custom versions, or \<open>None\<close> when the buffer archive is in error.
\<close>

definition SaveState ::
  "FEngine \<Rightarrow> string \<Rightarrow> FCommonInventoryRegistryState \<Rightarrow> bool \<Rightarrow> bool \<times> byte list" where
  "SaveState E DataSourceClassName s bIsCooking =
     (case SaveItem E bIsCooking (Persisted s) of
        None \<Rightarrow> (False, [])
      | Some (BufferArchive, CustomVersions) \<Rightarrow>
          (True,
           Header_Save E
             \<lparr>Version = LatestVersion, DataSourceClass = DataSourceClassName,
              VersionContainer = CustomVersions, HeaderChecksum = MemCrc32 E BufferArchive,
              bIsCooked = bIsCooking\<rparr>
           @ BufferArchive))"

text \<open>
  \<open>LoadState\<close>: the flag, the state afterwards and the error logged, if any; \<open>None\<close> when
  \<open>FixupDependencies\<close> aborts. The archive is the bytes from its read position to its end.
  \<open>LoadItem\<close> is \<open>StaticStruct()->SerializeItem\<close> from the memory reader; it yields what
  it has read into the two containers, \<open>Reader.AtEnd()\<close> and \<open>Reader.IsError()\<close>.
\<close>

datatype ELoadError =
  FailedToReadHeader | NewerVersion | DifferentDataSource | UnexpectedCookingState
  | FailedToVerifyDataIntegrity | FailedToReadData | UnsupportedOrMissedType

definition LoadState ::
  "FEngine \<Rightarrow> string \<Rightarrow> FCommonInventoryRegistryState \<Rightarrow> byte list \<Rightarrow> bool \<Rightarrow>
   (bool \<times> FCommonInventoryRegistryState \<times> ELoadError option) option" where
  "LoadState E DataSourceClassName s Ar bIsCooked' =
     (case Header_Load E Ar of
        None \<Rightarrow> Some (False, s, Some FailedToReadHeader)
      | Some (Header, SerializedState) \<Rightarrow>
          if Version Header > LatestVersion then Some (False, s, Some NewerVersion)
          else if DataSourceClass Header \<noteq> DataSourceClassName
            then Some (False, s, Some DifferentDataSource)
          else if bIsCooked Header \<noteq> bIsCooked' then Some (False, s, Some UnexpectedCookingState)
          else if MemCrc32 E SerializedState \<noteq> HeaderChecksum Header
            then Some (False, s, Some FailedToVerifyDataIntegrity)
          else
            (case LoadItem E bIsCooked' (VersionContainer Header) SerializedState of
               (Loaded, AtEnd, IsError) \<Rightarrow>
                 (let s1 = s\<lparr>DataContainer := map UProperties (PersistedRecords Loaded),
                              CustomDataContainer := PersistedCustomData Loaded\<rparr>
                  in
                  if \<not> AtEnd \<or> IsError
                    then map_option (\<lambda>s2. (False, s2, Some FailedToReadData)) (Reset s1 [])
                  else if list_ex (\<lambda>CustomData'. CustomData' = None) (CustomDataContainer s1)
                    then map_option (\<lambda>s2. (False, s2, Some UnsupportedOrMissedType)) (Reset s1 [])
                  else map_option (\<lambda>s2. (True, s2, None)) (FixupDependencies False s1))))"

section \<open>Defaults propagation\<close>



section \<open>Invariants of the registry state\<close>

text \<open>
  \<open>ReplicationIndexDense\<close>: the record at position \<open>i\<close> has replication index \<open>i + 1\<close>, and
  the replication indices in use, in the records and as keys of the replication map, are
  exactly \<open>1 .. N\<close>.
\<close>

definition ReplicationIndexDense :: "FCommonInventoryRegistryState \<Rightarrow> bool" where
  "ReplicationIndexDense s =
     ((\<forall>i < length (DataContainer s). RepIndex (DataContainer s ! i) = i + 1)
      \<and> RepIndex ` set (DataContainer s) = {1 .. length (DataContainer s)}
      \<and> dom (ReplicationMap s) = {1 .. length (DataContainer s)}
      \<and> (\<forall>k \<in> {1 .. length (DataContainer s)}. ReplicationMap s k = Some (k - 1)))"

text \<open>What the loop of \<open>FixupDependencies\<close> makes of the record at position \<open>i\<close>.\<close>

definition Fixed :: "FConstStructView list \<Rightarrow> nat \<Rightarrow> FCommonInventoryRegistryRecord \<Rightarrow> FCommonInventoryRegistryRecord" where
  "Fixed Container i r = r\<lparr>RepIndex := i + 1,
     DefaultPayload := RefreshViewData Container (DefaultPayloadIndex r),
     CustomData := RefreshViewData Container (CustomDataIndex r)\<rparr>"

text \<open>
  The blob store is well formed when every container item holds a struct, every payload
  slot of every record either has no blob (\<open>INDEX_NONE\<close>, null view) or names a container
  item that its view shows, and no two slots name the same item.
\<close>

definition slot_ok :: "FConstStructView list \<Rightarrow> EPayloadSlot \<Rightarrow> FCommonInventoryRegistryRecord \<Rightarrow> bool" where
  "slot_ok C t r =
     ((SlotIndex t r = INDEX_NONE \<longrightarrow> SlotView t r = None)
      \<and> (SlotIndex t r \<noteq> INDEX_NONE \<longrightarrow>
           IsValidIndex C (SlotIndex t r) \<and> SlotView t r = C ! nat (SlotIndex t r)))"

definition blobs_ok_on ::
  "FCommonInventoryRegistryRecord list \<Rightarrow> FConstStructView list \<Rightarrow> bool" where
  "blobs_ok_on dc C =
     ((\<forall>v \<in> set C. v \<noteq> None)
      \<and> (\<forall>j < length dc. \<forall>t. slot_ok C t (dc ! j))
      \<and> (\<forall>j < length dc. \<forall>j' < length dc. \<forall>t t'.
            SlotIndex t (dc ! j) = SlotIndex t' (dc ! j')
            \<and> SlotIndex t (dc ! j) \<noteq> INDEX_NONE \<longrightarrow> j = j' \<and> t = t'))"

definition blobs_ok :: "FCommonInventoryRegistryState \<Rightarrow> bool" where
  "blobs_ok s = blobs_ok_on (DataContainer s) (CustomDataContainer s)"

text \<open>
  The secondary data is coherent when the identifier map points at records with that
  identifier and the archetype groups are those of the types that occur. A well-formed
  state has, besides, no identifier twice.
\<close>

definition maps_coherent :: "FCommonInventoryRegistryState \<Rightarrow> bool" where
  "maps_coherent s =
     (\<forall>k i. DataMap s k = Some i \<longrightarrow>
        i < length (DataContainer s) \<and> GetPrimaryAssetId (DataContainer s ! i) = k)"

definition groups_exact :: "FCommonInventoryRegistryState \<Rightarrow> bool" where
  "groups_exact s =
     (GroupType ` set (Archetypes s) = GetPrimaryAssetType ` set (DataContainer s))"

definition wf_state :: "FCommonInventoryRegistryState \<Rightarrow> bool" where
  "wf_state s =
     (blobs_ok s \<and> maps_coherent s \<and> groups_exact s
      \<and> distinct (map GetPrimaryAssetId (DataContainer s)))"

text \<open>Auxiliary notions for the proofs about the blob store.\<close>

definition Dec :: "int \<Rightarrow> int \<Rightarrow> int" where
  "Dec a k = (if k > a then k - 1 else k)"

definition DecrIndices :: "int \<Rightarrow> FCommonInventoryRegistryRecord \<Rightarrow> FCommonInventoryRegistryRecord" where
  "DecrIndices a r = r\<lparr>DefaultPayloadIndex := Dec a (DefaultPayloadIndex r),
                         CustomDataIndex := Dec a (CustomDataIndex r)\<rparr>"


definition Meta ::
  "FCommonInventoryRegistryRecord \<Rightarrow> FCommonItemSharedData \<times> string \<times> nat \<times> 32 word" where
  "Meta r = (SharedData r, AssetPath r, RepIndex r, Checksum r)"

definition same_secondary :: "FCommonInventoryRegistryState \<Rightarrow> FCommonInventoryRegistryState \<Rightarrow> bool" where
  "same_secondary s s' =
     (Archetypes s' = Archetypes s \<and> DataMap s' = DataMap s \<and> ReplicationMap s' = ReplicationMap s
      \<and> RepIndexEncodingBitsNum s' = RepIndexEncodingBitsNum s \<and> StateChecksum s' = StateChecksum s)"

section \<open>Example data\<close>

text \<open>
  A registry of two weapons, each with a default payload of the same struct type; the
  payload of the axe is a parameter. \<open>Quiver\<close> is a payload of another struct type.
\<close>

definition Axe_id :: FPrimaryAssetId where
  "Axe_id = \<lparr>PrimaryAssetType = ''Weapon'', PrimaryAssetName = ''Axe''\<rparr>"

definition Bow_id :: FPrimaryAssetId where
  "Bow_id = \<lparr>PrimaryAssetType = ''Weapon'', PrimaryAssetName = ''Bow''\<rparr>"

definition Durability :: "int \<Rightarrow> int \<Rightarrow> FConstStructView" where
  "Durability d q = Some \<lparr>ScriptStruct = ''DurabilityPayload'', Memory = [IntProperty d, IntProperty q]\<rparr>"

definition Axe :: "FConstStructView \<Rightarrow> FCommonInventoryRegistryRecord" where
  "Axe payload = \<lparr>DefaultPayload = payload, CustomData = None,
     SharedData = \<lparr>PrimaryAssetId = Axe_id, GameplayTags = [''Melee''], MaxStackSize = 1\<rparr>,
     AssetPath = ''/Game/Items/Axe'', DefaultPayloadIndex = 0, CustomDataIndex = INDEX_NONE,
     RepIndex = 1, Checksum = 0\<rparr>"

definition Bow :: FCommonInventoryRegistryRecord where
  "Bow = \<lparr>DefaultPayload = Durability 50 1, CustomData = None,
     SharedData = \<lparr>PrimaryAssetId = Bow_id, GameplayTags = [''Ranged''], MaxStackSize = 1\<rparr>,
     AssetPath = ''/Game/Items/Bow'', DefaultPayloadIndex = 1, CustomDataIndex = INDEX_NONE,
     RepIndex = 2, Checksum = 0\<rparr>"

definition Armory :: "FConstStructView \<Rightarrow> FCommonInventoryRegistryState" where
  "Armory payload =
     \<lparr>DataContainer = [Axe payload, Bow], CustomDataContainer = [payload, Durability 50 1],
      Archetypes = [\<lparr>GroupType = ''Weapon'', Begin = 0, Offset = 2, GroupChecksum = 0\<rparr>],
      DataMap = [Axe_id \<mapsto> 0, Bow_id \<mapsto> 1], ReplicationMap = [1 \<mapsto> 0, 2 \<mapsto> 1],
      RepIndexEncodingBitsNum = 2, StateChecksum = 0\<rparr>"

definition Quiver :: FConstStructView where
  "Quiver = Some \<lparr>ScriptStruct = ''QuiverPayload'', Memory = [IntProperty 30]\<rparr>"

section \<open>Cached checksums\<close>

text \<open>
  The cached checksum of the archetype group of a type, and the cached checksum of the
  record with an identifier; \<open>None\<close> when the state has no such group or record.
\<close>

definition ArchetypeChecksum :: "FArchetypeGroup list \<Rightarrow> FName \<Rightarrow> 32 word option" where
  "ArchetypeChecksum groups t =
     map_option (\<lambda>k. GroupChecksum (groups ! k)) (FindArchetypeGroup groups t)"

definition RecordChecksum ::
  "FCommonInventoryRegistryRecord list \<Rightarrow> FPrimaryAssetId \<Rightarrow> 32 word option" where
  "RecordChecksum dc k = map_of (map (\<lambda>r. (GetPrimaryAssetId r, Checksum r)) dc) k"

section \<open>A second example\<close>

text \<open>
  A registry with two archetype groups whose checksum caches are all filled, a record to
  insert, and the states after one \<open>AppendData\<close> and after one \<open>RemoveData\<close>.
\<close>

definition Elixir_id :: FPrimaryAssetId where
  "Elixir_id = \<lparr>PrimaryAssetType = ''Potion'', PrimaryAssetName = ''Elixir''\<rparr>"

definition Elixir :: FCommonInventoryRegistryRecord where
  "Elixir = \<lparr>DefaultPayload = None, CustomData = None,
     SharedData = \<lparr>PrimaryAssetId = Elixir_id, GameplayTags = [''Drink''], MaxStackSize = 16\<rparr>,
     AssetPath = ''/Game/Items/Elixir'', DefaultPayloadIndex = INDEX_NONE, CustomDataIndex = INDEX_NONE,
     RepIndex = 1, Checksum = 41\<rparr>"

definition Club :: FCommonInventoryRegistryRecord where
  "Club = \<lparr>DefaultPayload = None, CustomData = None,
     SharedData = \<lparr>PrimaryAssetId = \<lparr>PrimaryAssetType = ''Weapon'', PrimaryAssetName = ''Club''\<rparr>,
                   GameplayTags = [''Melee''], MaxStackSize = 1\<rparr>,
     AssetPath = ''/Game/Items/Club'', DefaultPayloadIndex = INDEX_NONE, CustomDataIndex = INDEX_NONE,
     RepIndex = 0, Checksum = 44\<rparr>"

definition Stocked :: FCommonInventoryRegistryState where
  "Stocked =
     \<lparr>DataContainer = [Elixir, (Axe (Durability 100 2))\<lparr>RepIndex := 2, Checksum := 42\<rparr>,
                       Bow\<lparr>RepIndex := 3, Checksum := 43\<rparr>],
      CustomDataContainer = [Durability 100 2, Durability 50 1],
      Archetypes = [\<lparr>GroupType = ''Potion'', Begin = 0, Offset = 1, GroupChecksum = 51\<rparr>,
                    \<lparr>GroupType = ''Weapon'', Begin = 1, Offset = 2, GroupChecksum = 52\<rparr>],
      DataMap = [Elixir_id \<mapsto> 0, Axe_id \<mapsto> 1, Bow_id \<mapsto> 2],
      ReplicationMap = [1 \<mapsto> 0, 2 \<mapsto> 1, 3 \<mapsto> 2],
      RepIndexEncodingBitsNum = 2, StateChecksum = 61\<rparr>"

definition Restocked :: "FCommonInventoryRegistryRecord \<Rightarrow> FCommonInventoryRegistryState" where
  "Restocked r = snd (the (AppendData Stocked r))"

definition Destocked :: "FPrimaryAssetId \<Rightarrow> FCommonInventoryRegistryState" where
  "Destocked k = snd (the (RemoveData Stocked k))"

section \<open>A third example\<close>

text \<open>
  A registry built by three calls of \<open>AppendData\<close>: the axe is registered with custom data
  only, the bow with a default payload, and then the axe is updated with a default payload
  as well. \<open>Item\<close> is a record as a data source hands it in.
\<close>

definition Item :: "FPrimaryAssetId \<Rightarrow> FConstStructView \<Rightarrow> FConstStructView \<Rightarrow> FCommonInventoryRegistryRecord" where
  "Item k d c = \<lparr>DefaultPayload = d, CustomData = c,
     SharedData = \<lparr>PrimaryAssetId = k, GameplayTags = [], MaxStackSize = 1\<rparr>,
     AssetPath = ''/Game/Items/'' @ PrimaryAssetName k, DefaultPayloadIndex = INDEX_NONE,
     CustomDataIndex = INDEX_NONE, RepIndex = INVALID_REPLICATION_INDEX, Checksum = 0\<rparr>"

definition Rack :: "FCommonInventoryRegistryState option" where
  "Rack =
     Option.bind (AppendData FCommonInventoryRegistryState_default (Item Axe_id None Quiver)) (\<lambda>(b1, s1).
     Option.bind (AppendData s1 (Item Bow_id (Durability 50 1) None)) (\<lambda>(b2, s2).
     Option.bind (AppendData s2 (Item Axe_id (Durability 100 2) Quiver)) (\<lambda>(b3, s3). Some s3)))"

definition Rack_and_Club :: "FCommonInventoryRegistryState option" where
  "Rack_and_Club = Option.bind Rack (\<lambda>s. map_option snd (AppendData s Club))"

section \<open>An example engine\<close>

text \<open>
  A small engine for the examples of the serializer: additive hashes, little-endian
  integers, length-prefixed strings, and an item serializer that is a code book with one
  entry, the armory. \<open>Saved_Armory\<close> is the saved file of the armory and \<open>Corrupt_Armory\<close>
  the same file with its last byte changed from 3 to 4.
\<close>

definition Toy_PutUInt32 :: "32 word \<Rightarrow> byte list" where
  "Toy_PutUInt32 w = [ucast w, ucast (drop_bit 8 w), ucast (drop_bit 16 w), ucast (drop_bit 24 w)]"

definition Toy_GetUInt32 :: "byte list \<Rightarrow> (32 word \<times> byte list) option" where
  "Toy_GetUInt32 bytes =
     (case bytes of
        a # b # c # d # rest \<Rightarrow>
          Some (or (ucast a) (or (push_bit 8 (ucast b)) (or (push_bit 16 (ucast c)) (push_bit 24 (ucast d)))), rest)
      | _ \<Rightarrow> None)"

definition Toy_PutPath :: "string \<Rightarrow> byte list" where
  "Toy_PutPath str = Toy_PutUInt32 (of_nat (length str)) @ map (\<lambda>c. of_nat (of_char c)) str"

definition Toy_GetPath :: "byte list \<Rightarrow> (string \<times> byte list) option" where
  "Toy_GetPath bytes =
     (case Toy_GetUInt32 bytes of
        None \<Rightarrow> None
      | Some (n, rest) \<Rightarrow>
          if length rest < unat n then None
          else Some (map (\<lambda>b. char_of (unat b)) (take (unat n) rest), drop (unat n) rest))"

definition Toy_Engine :: FEngine where
  "Toy_Engine =
     \<lparr>StrCrc32 = (\<lambda>str c. 31 * c + of_nat (sum_list (map of_char str)) + 1),
      TypeCrc32 = (\<lambda>v c. 31 * c + v + 1),
      MemCrc32 = (\<lambda>bytes. of_nat (sum_list (map unat bytes)) + 1),
      ExportSharedData = (\<lambda>d. PrimaryAssetName (PrimaryAssetId d) @ concat (GameplayTags d)),
      ExportScriptStruct = (\<lambda>v. case v of None \<Rightarrow> [] | Some x \<Rightarrow> ScriptStruct x),
      PutUInt32 = Toy_PutUInt32,
      GetUInt32 = Toy_GetUInt32,
      PutBool = (\<lambda>b. Toy_PutUInt32 (if b then 1 else 0)),
      GetBool = (\<lambda>bytes. map_option (\<lambda>(w, rest). (w \<noteq> 0, rest)) (Toy_GetUInt32 bytes)),
      PutPath = Toy_PutPath,
      GetPath = Toy_GetPath,
      PutVersions = (\<lambda>vs. Toy_PutUInt32 (of_nat (length vs))),
      GetVersions = (\<lambda>bytes. map_option (\<lambda>(w, rest). ([], rest)) (Toy_GetUInt32 bytes)),
      SaveItem = (\<lambda>cooked p.
        if p = Persisted (Armory (Durability 100 2)) then Some ([1, 2, 3], []) else None),
      LoadItem = (\<lambda>cooked vs bytes.
        if bytes = [1, 2, 3] then (Persisted (Armory (Durability 100 2)), True, False)
        else (\<lparr>PersistedRecords = [], PersistedCustomData = []\<rparr>, bytes = [], bytes \<noteq> []))\<rparr>"

definition Saved_Armory :: "byte list" where
  "Saved_Armory = snd (SaveState Toy_Engine ''ItemSource'' (Armory (Durability 100 2)) False)"



section \<open>Settled states and coherent caches\<close>

text \<open>
  \<open>InvalidateChecksums\<close> clears every checksum cache of a state. A state \<open>IsFixedUp\<close> when
  \<open>FixupDependencies\<close> accepts it and leaves its records and the extent of its groups as
  they are, and no blob is invalid: this is how \<open>Reset\<close>, \<open>AppendData\<close>, \<open>RemoveData\<close> and
  \<open>LoadState\<close> leave a state. \<open>SavedHeader\<close> is the header that \<open>SaveState\<close> fills in.
\<close>

definition InvalidateChecksums :: "FCommonInventoryRegistryState \<Rightarrow> FCommonInventoryRegistryState" where
  "InvalidateChecksums s =
     s\<lparr>DataContainer := map InvalidateChecksum (DataContainer s),
       Archetypes := map (\<lambda>g. g\<lparr>GroupChecksum := 0\<rparr>) (Archetypes s),
       StateChecksum := 0\<rparr>"

definition IsFixedUp :: "FCommonInventoryRegistryState \<Rightarrow> bool" where
  "IsFixedUp s =
     ((case FixupDependencies False s of
         None \<Rightarrow> False
       | Some s0 \<Rightarrow>
           DataContainer s0 = DataContainer s
           \<and> Archetypes s0 = map (\<lambda>g. g\<lparr>GroupChecksum := 0\<rparr>) (Archetypes s))
      \<and> \<not> list_ex (\<lambda>v. v = None) (CustomDataContainer s))"

definition SavedHeader ::
  "FEngine \<Rightarrow> string \<Rightarrow> bool \<Rightarrow> byte list \<Rightarrow> FCustomVersion list \<Rightarrow> FInventoryRegistryHeader" where
  "SavedHeader E DataSourceClassName bIsCooking BufferArchive CustomVersions =
     \<lparr>Version = LatestVersion, DataSourceClass = DataSourceClassName,
      VersionContainer = CustomVersions, HeaderChecksum = MemCrc32 E BufferArchive,
      bIsCooked = bIsCooking\<rparr>"

text \<open>
  The caches of a state are coherent when each of them is either empty (zero) or holds the
  value that is computed for it from empty caches.
\<close>

definition RecordDigest :: "FEngine \<Rightarrow> FCommonInventoryRegistryRecord \<Rightarrow> 32 word" where
  "RecordDigest E r = fst (Record_GetChecksum E (InvalidateChecksum r))"

definition GroupDigest ::
  "FEngine \<Rightarrow> FCommonInventoryRegistryRecord list \<Rightarrow> FArchetypeGroup \<Rightarrow> 32 word" where
  "GroupDigest E rs g =
     fst (GetChecksum_records E
            (map InvalidateChecksum (take (Offset g) (drop (Begin g) rs))) 0)"

definition RecordCoherent :: "FEngine \<Rightarrow> FCommonInventoryRegistryRecord \<Rightarrow> bool" where
  "RecordCoherent E r = (Checksum r = 0 \<or> Checksum r = RecordDigest E r)"

definition CachesCoherent :: "FEngine \<Rightarrow> FCommonInventoryRegistryState \<Rightarrow> bool" where
  "CachesCoherent E s =
     (list_all (RecordCoherent E) (DataContainer s)
      \<and> list_all (\<lambda>g. GroupChecksum g = 0 \<or> GroupChecksum g = GroupDigest E (DataContainer s) g)
            (Archetypes s)
      \<and> (StateChecksum s = 0
          \<or> StateChecksum s = fst (GetChecksum E (InvalidateChecksums s))))"

text \<open>The armory with its caches filled by \<open>GetChecksum\<close>, and what is loaded from its file.\<close>

definition Hashed_Armory :: FCommonInventoryRegistryState where
  "Hashed_Armory = snd (GetChecksum Toy_Engine (Armory (Durability 100 2)))"

definition Loaded_Armory :: FCommonInventoryRegistryState where
  "Loaded_Armory = fst (snd (the (LoadState Toy_Engine ''ItemSource'' Stocked Saved_Armory False)))"

section \<open>Properties of redirect resolution\<close>
lemma functional_step:
  assumes "distinct (map fst U)" "(a, b) \<in> set U" "(a, c) \<in> (set U)\<^sup>+"
  shows "b = c \<or> (b, c) \<in> (set U)\<^sup>+"
proof -
  from assms(3) obtain b' where b': "(a, b') \<in> set U" "(b', c) \<in> (set U)\<^sup>*"
    by (meson converse_tranclE r_into_rtrancl trancl_into_rtrancl tranclD)
  have "b' = b" using assms(1,2) b'(1) by (meson eq_key_imp_eq_value)
  with b'(2) show ?thesis by (auto simp: rtrancl_eq_or_trancl)
qed

lemma final_forward:
  assumes d: "distinct (map fst U)" and p: "(a, b) \<in> (set U)\<^sup>+" and f: "has_final U a c"
    and bd: "b \<in> fst ` set U"
  shows "has_final U b c"
  using p f bd
proof (induction rule: trancl_induct)
  case (base y)
  then show ?case using functional_step[OF d, of a y c] by (auto simp: has_final_def)
next
  case (step y z)
  have yd: "y \<in> fst ` set U" using step(2) by (auto intro: rev_image_eqI)
  have "has_final U y c" using step yd by blast
  then show ?case using functional_step[OF d, of y z c] step(2,5) by (auto simp: has_final_def)
qed

lemma final_unique:
  assumes d: "distinct (map fst U)" and "has_final U a c" "has_final U a c'"
  shows "c = c'"
proof (rule ccontr)
  assume ne: "c \<noteq> c'"
  have "(a, c) \<in> (set U)\<^sup>+" using assms by (simp add: has_final_def)
  then show False using assms(3) ne assms(2)
  proof (induction rule: converse_trancl_induct)
    case (base y)
    then show ?case using functional_step[OF d, of y c c'] 
      by (auto simp: has_final_def dest!: tranclD intro: rev_image_eqI)
  next
    case (step y z)
    have "z = c' \<or> (z, c') \<in> (set U)\<^sup>+" using functional_step[OF d step(1)] step(4) by (simp add: has_final_def)
    moreover have "z \<in> fst ` set U" using step(2) by (auto dest!: tranclD intro: rev_image_eqI)
    ultimately have "has_final U z c'" using step(4) by (auto simp: has_final_def)
    moreover have "has_final U z c" using step(2,6) by (auto simp: has_final_def)
    ultimately show ?case using step by blast
  qed
qed

lemma final_backward: "(a, b) \<in> (set U)\<^sup>+ \<Longrightarrow> has_final U b c \<Longrightarrow> has_final U a c"
  by (auto simp: has_final_def)

lemma cycle_back:
  assumes d: "distinct (map fst U)" and cyc: "(n, n) \<in> (set U)\<^sup>+" and p: "(n, x) \<in> (set U)\<^sup>+"
  shows "(x, n) \<in> (set U)\<^sup>*"
  using p
proof (induction rule: trancl_induct)
  case (base y)
  then show ?case using functional_step[OF d, of n y n] cyc by auto
next
  case (step y z)
  show ?case
  proof (cases "y = n")
    case True
    then show ?thesis using functional_step[OF d, of n z n] cyc step(2) by auto
  next
    case False
    then have "(y, n) \<in> (set U)\<^sup>+" using step(3) by (auto simp: rtrancl_eq_or_trancl)
    then show ?thesis using functional_step[OF d, of y z n] step(2) by auto
  qed
qed

lemma cycle_no_final:
  assumes d: "distinct (map fst U)" and cyc: "(n, n) \<in> (set U)\<^sup>+"
  shows "\<not> has_final U n c"
proof
  assume f: "has_final U n c"
  have nd: "n \<in> fst ` set U" using cyc by (auto dest!: tranclD intro: rev_image_eqI)
  have "(c, n) \<in> (set U)\<^sup>*" using cycle_back[OF d cyc] f by (simp add: has_final_def)
  moreover have "c \<noteq> n" using f nd by (auto simp: has_final_def)
  ultimately have "(c, n) \<in> (set U)\<^sup>+" by (auto simp: rtrancl_eq_or_trancl)
  then have "c \<in> fst ` set U" by (auto dest!: tranclD intro: rev_image_eqI)
  then show False using f by (simp add: has_final_def)
qed

lemma no_final_backward:
  assumes d: "distinct (map fst U)" and p: "(a, b) \<in> (set U)\<^sup>+" and nf: "no_final U b"
  shows "no_final U a"
proof -
  have ad: "a \<in> fst ` set U" using p by (auto dest!: tranclD intro: rev_image_eqI)
  have "\<not> has_final U a c" for c
    using final_forward[OF d p, of c] nf by (auto simp: no_final_def)
  then show ?thesis using ad by (simp add: no_final_def)
qed

lemma walk_correct:
  assumes d: "distinct (map fst U)" and nn: "NAME_None \<notin> snd ` set U"
    and inv: "res_inv U Out Inv"
  shows "(\<forall>x \<in> set V. (x, nv) \<in> (set U)\<^sup>+) \<Longrightarrow> V \<noteq> [] \<Longrightarrow>
         ResolveRedirectionMap_walk U Out Inv nv V = (r, V') \<Longrightarrow>
         set V \<subseteq> set V' \<and>
         (r \<noteq> NAME_None \<longrightarrow> (\<forall>x \<in> set V'. has_final U x r)) \<and>
         (r = NAME_None \<longrightarrow> (\<forall>x \<in> set V'. no_final U x))"
  using d nn inv
proof (induction U Out Inv nv V arbitrary: r V' rule: ResolveRedirectionMap_walk.induct)
  case (1 U Out Inv nv V)
  note d = "1.prems"(4) and nn = "1.prems"(5) and inv = "1.prems"(6)
  have rng: "nv \<in> snd ` set U" 
    using "1.prems"(1,2) by (cases V) (auto dest!: tranclD2 intro: rev_image_eqI)
  have nvn: "nv \<noteq> NAME_None" using rng nn by metis
  show ?case
  proof (cases "map_of U nv")
    case None
    then have nd: "nv \<notin> fst ` set U" by (simp add: map_of_eq_None_iff)
    from None "1.prems"(3) have "r = nv" "V' = V" by simp_all
    then show ?thesis using "1.prems"(1) nd nvn by (auto simp: has_final_def)
  next
    case (Some nx)
    then have e: "(nv, nx) \<in> set U" by (rule map_of_SomeD)
    let ?V = "TSet_Emplace V nv"
    have sV: "set ?V = insert nv (set V)" by (auto simp: TSet_Emplace_def)
    have Vne: "?V \<noteq> []" using "1.prems"(2) by (auto simp: TSet_Emplace_def)
    have reach: "\<forall>x \<in> set ?V. (x, nx) \<in> (set U)\<^sup>+"
      using "1.prems"(1) e by (auto simp: sV intro: trancl_into_trancl)
    show ?thesis
    proof (cases "map_of Out nx")
      case (Some R)
      then have fR: "has_final U nx R" using inv by (simp add: res_inv_def)
      then have "R \<in> snd ` set U" by (auto simp: has_final_def dest!: tranclD2 intro: rev_image_eqI)
      then have Rn: "R \<noteq> NAME_None" using nn by metis
      from Some \<open>map_of U nv = Some nx\<close> "1.prems"(3) have "r = R" "V' = ?V" by simp_all
      then show ?thesis using reach fR Rn final_backward[of _ nx U R] by (auto simp: sV)
    next
      case None
      show ?thesis
      proof (cases "nx \<in> set ?V \<or> nx \<in> set Inv")
        case True
        have nfx: "no_final U nx"
        proof (cases "nx \<in> set Inv")
          case True
          then show ?thesis using inv by (simp add: res_inv_def)
        next
          case False
          with True have "nx \<in> set ?V" by simp
          then have cyc: "(nx, nx) \<in> (set U)\<^sup>+" using reach by blast
          then have "nx \<in> fst ` set U" by (auto dest!: tranclD intro: rev_image_eqI)
          then show ?thesis using cycle_no_final[OF d cyc] by (simp add: no_final_def)
        qed
        from True None \<open>map_of U nv = Some nx\<close> "1.prems"(3) have "r = NAME_None" "V' = ?V"
          by (simp_all split: if_splits)
        then show ?thesis using reach nfx no_final_backward[OF d _ nfx] by (auto simp: sV)
      next
        case False
        then have rec: "ResolveRedirectionMap_walk U Out Inv nx ?V = (r, V')"
          using None \<open>map_of U nv = Some nx\<close> "1.prems"(3) by (simp split: if_splits)
        have "set ?V \<subseteq> set V' \<and>
          (r \<noteq> NAME_None \<longrightarrow> (\<forall>x \<in> set V'. has_final U x r)) \<and>
          (r = NAME_None \<longrightarrow> (\<forall>x \<in> set V'. no_final U x))"
          using "1.IH"[OF \<open>map_of U nv = Some nx\<close> None False reach Vne rec d nn inv] .
        then show ?thesis by (auto simp: sV)
      qed
    qed
  qed
qed

lemma fold_emplace_map_of:
  "map_of (fold (\<lambda>Key m. TMap_Emplace m Key v) ks Out) k =
     (if k \<in> set ks then Some v else map_of Out k)"
  by (induction ks arbitrary: Out) (auto simp: TMap_Emplace_def update_conv')

lemma set_TSet_Append: "set (TSet_Append S xs) = set S \<union> set xs"
  unfolding TSet_Append_def by (induction xs arbitrary: S) (auto simp: TSet_Emplace_def)

lemma step_correct:
  assumes d: "distinct (map fst U)" and nn: "NAME_None \<notin> snd ` set U"
    and inv: "res_inv U Out Inv" and e: "(ol, nw) \<in> set U"
    and st: "ResolveRedirectionMap_step U (Out, Inv) (ol, nw) = (Out', Inv')"
  shows "res_inv U Out' Inv' \<and> (map_of Out' ol \<noteq> None \<or> ol \<in> set Inv') \<and>
         (\<forall>k. map_of Out k \<noteq> None \<longrightarrow> map_of Out' k \<noteq> None) \<and> set Inv \<subseteq> set Inv'"
proof (cases "map_of Out nw")
  case (Some R)
  then have "has_final U ol R" using inv e by (auto simp: res_inv_def intro: final_backward)
  moreover from Some st have "Out' = TMap_Emplace Out ol R" "Inv' = Inv"
    by (simp_all add: ResolveRedirectionMap_step_def)
  ultimately show ?thesis using inv by (auto simp: res_inv_def TMap_Emplace_def update_conv')
next
  case None
  show ?thesis
  proof (cases "nw \<in> set Inv")
    case True
    then have "no_final U ol" using inv e no_final_backward[OF d, of ol nw] by (auto simp: res_inv_def)
    moreover from None True st have "Out' = Out" "Inv' = TSet_Emplace Inv ol"
      by (simp_all add: ResolveRedirectionMap_step_def)
    ultimately show ?thesis using inv by (auto simp: res_inv_def TSet_Emplace_def)
  next
    case False
    obtain r V where w: "ResolveRedirectionMap_walk U Out Inv nw (TSet_Emplace [] ol) = (r, V)"
      by (cases "ResolveRedirectionMap_walk U Out Inv nw (TSet_Emplace [] ol)") auto
    have pre: "\<forall>x \<in> set (TSet_Emplace [] ol). (x, nw) \<in> (set U)\<^sup>+" "TSet_Emplace [] ol \<noteq> []"
      using e by (auto simp: TSet_Emplace_def)
    note wc = walk_correct[OF d nn inv pre w]
    have olV: "ol \<in> set V" using wc by (auto simp: TSet_Emplace_def)
    show ?thesis
    proof (cases "r = NAME_None")
      case True
      with None False st w have "Out' = Out" "Inv' = TSet_Append Inv V"
        by (simp_all add: ResolveRedirectionMap_step_def IsNone_def)
      then show ?thesis using inv wc True olV by (auto simp: res_inv_def set_TSet_Append)
    next
      case nr: False
      with None False st w have "Out' = fold (\<lambda>Key m. TMap_Emplace m Key r) V Out" "Inv' = Inv"
        by (simp_all add: ResolveRedirectionMap_step_def IsNone_def)
      then show ?thesis using inv wc nr olV by (auto simp: res_inv_def fold_emplace_map_of)
    qed
  qed
qed

lemma fold_step_correct:
  assumes d: "distinct (map fst U)" and nn: "NAME_None \<notin> snd ` set U"
  shows "set es \<subseteq> set U \<Longrightarrow> res_inv U Out Inv \<Longrightarrow>
     fold (\<lambda>entry st. ResolveRedirectionMap_step U st entry) es (Out, Inv) = (Out', Inv') \<Longrightarrow>
     res_inv U Out' Inv' \<and> (\<forall>k \<in> fst ` set es. map_of Out' k \<noteq> None \<or> k \<in> set Inv') \<and>
     (\<forall>k. map_of Out k \<noteq> None \<longrightarrow> map_of Out' k \<noteq> None) \<and> set Inv \<subseteq> set Inv'"
proof (induction es arbitrary: Out Inv)
  case Nil
  then show ?case by simp
next
  case (Cons e es)
  obtain ol nw where e: "e = (ol, nw)" by (cases e)
  obtain Out1 Inv1 where s1: "ResolveRedirectionMap_step U (Out, Inv) (ol, nw) = (Out1, Inv1)"
    by (cases "ResolveRedirectionMap_step U (Out, Inv) (ol, nw)") auto
  have eU: "(ol, nw) \<in> set U" using Cons.prems(1) e by simp
  note sc = step_correct[OF d nn Cons.prems(2) eU s1]
  have rest: "fold (\<lambda>entry st. ResolveRedirectionMap_step U st entry) es (Out1, Inv1) = (Out', Inv')"
    using Cons.prems(3) e s1 by simp
  have "set es \<subseteq> set U" using Cons.prems(1) by simp
  note ih = Cons.IH[OF this _ rest]
  show ?case using sc ih e by auto
qed

lemma ResolveRedirectionMap_correct:
  assumes d: "distinct (map fst U)" and nn: "NAME_None \<notin> snd ` set U"
    and r: "ResolveRedirectionMap U = (Out, Inv)"
  shows "res_inv U Out Inv \<and> (\<forall>k \<in> fst ` set U. map_of Out k \<noteq> None \<or> k \<in> set Inv)"
proof -
  have "res_inv U [] []" by (simp add: res_inv_def)
  from fold_step_correct[OF d nn subset_refl this r[unfolded ResolveRedirectionMap_def]]
  show ?thesis by simp
qed

lemma update_absent: "k \<notin> fst ` set m \<Longrightarrow> AList.update k v m = m @ [(k, v)]"
  by (induction m) auto

lemma GenerateRedirectionMap_loop_inv:
  "gen_inv m \<Longrightarrow> gen_inv (GenerateRedirectionMap_loop rs m)"
proof (induction rs arbitrary: m)
  case Nil
  then show ?case by simp
next
  case (Cons r rs)
  show ?case
  proof (cases "Redirector_IsValid r \<and> \<not> TMap_Contains m (OldValue r)")
    case True
    then have ab: "OldValue r \<notin> fst ` set m"
      by (simp add: TMap_Contains_def map_of_eq_None_iff)
    have ab': "(OldValue r, b) \<notin> set m" for b using ab by force
    have "gen_inv (TMap_Emplace m (OldValue r) (NewValue r))"
      using Cons.prems True ab'
      by (auto simp: gen_inv_def TMap_Emplace_def update_absent[OF ab] Redirector_IsValid_def IsNone_def)
    then show ?thesis using Cons.IH True by simp
  next
    case False
    then show ?thesis using Cons by auto
  qed
qed

lemma GenerateRedirectionMap_inv: "gen_inv (GenerateRedirectionMap rs)"
  unfolding GenerateRedirectionMap_def
  by (rule GenerateRedirectionMap_loop_inv) (simp add: gen_inv_def)

lemma resolved_final:
  assumes "has_final (GenerateRedirectionMap rs) k c"
  shows "map_of (fst (ResolveRedirectionMap (GenerateRedirectionMap rs))) k = Some c"
proof -
  let ?U = "GenerateRedirectionMap rs"
  obtain Out Inv where r: "ResolveRedirectionMap ?U = (Out, Inv)"
    by (cases "ResolveRedirectionMap ?U") auto
  have g: "gen_inv ?U" by (rule GenerateRedirectionMap_inv)
  then have d: "distinct (map fst ?U)" and nn: "NAME_None \<notin> snd ` set ?U"
    by (simp_all add: gen_inv_def)
  note c = ResolveRedirectionMap_correct[OF d nn r]
  have kd: "k \<in> fst ` set ?U" using assms by (auto simp: has_final_def dest!: tranclD intro: rev_image_eqI)
  have "k \<notin> set Inv" using c assms by (auto simp: res_inv_def no_final_def)
  then obtain v where v: "map_of Out k = Some v" using c kd by auto
  then have "has_final ?U k v" using c by (simp add: res_inv_def)
  then have "v = c" using final_unique[OF d _ assms] by simp
  then show ?thesis using v r by simp
qed

lemma cyclic_no_final:
  assumes d: "distinct (map fst U)" and c: "chain_cyclic U k"
  shows "no_final U k"
proof -
  from c obtain n where n: "(k, n) \<in> (set U)\<^sup>*" "(n, n) \<in> (set U)\<^sup>+" by (auto simp: chain_cyclic_def)
  have nd: "n \<in> fst ` set U" using n(2) by (auto dest!: tranclD intro: rev_image_eqI)
  have nf: "no_final U n" using cycle_no_final[OF d n(2)] nd by (simp add: no_final_def)
  show ?thesis
  proof (cases "k = n")
    case True then show ?thesis using nf by simp
  next
    case False
    then have "(k, n) \<in> (set U)\<^sup>+" using n(1) by (auto simp: rtrancl_eq_or_trancl)
    then show ?thesis using no_final_backward[OF d _ nf] by simp
  qed
qed

lemma resolved_cyclic:
  assumes "chain_cyclic (GenerateRedirectionMap rs) k"
  shows "map_of (fst (ResolveRedirectionMap (GenerateRedirectionMap rs))) k = None
       \<and> k \<in> set (snd (ResolveRedirectionMap (GenerateRedirectionMap rs)))"
proof -
  let ?U = "GenerateRedirectionMap rs"
  obtain Out Inv where r: "ResolveRedirectionMap ?U = (Out, Inv)"
    by (cases "ResolveRedirectionMap ?U") auto
  have g: "gen_inv ?U" by (rule GenerateRedirectionMap_inv)
  then have d: "distinct (map fst ?U)" and nn: "NAME_None \<notin> snd ` set ?U"
    by (simp_all add: gen_inv_def)
  note c = ResolveRedirectionMap_correct[OF d nn r]
  have nf: "no_final ?U k" using cyclic_no_final[OF d assms] .
  have "map_of Out k = None" using c nf by (cases "map_of Out k") (auto simp: res_inv_def no_final_def)
  moreover have "k \<in> set Inv" using c nf calculation by (auto simp: no_final_def)
  ultimately show ?thesis using r by simp
qed

text \<open>
  C6. Redirect resolution flattens chains: whenever the chain of an old value \<open>k\<close> in the
  raw redirect list ends at a final target \<open>c\<close> (for the chain A to B to C: \<open>k = A\<close>,
  \<open>c = C\<close>), the resolved map sends \<open>k\<close> directly to \<open>c\<close>, and one \<open>TryRedirect\<close> call
  returns true and rewrites the name (or the type) to \<open>c\<close>.
\<close>

theorem redirect_chain_flattened:
  "(has_final (GenerateRedirectionMap NameRaw) (PrimaryAssetName i) c \<longrightarrow>
      map_of (NameRedirectionMap (LoadRedirectsFromConfig TypeRaw NameRaw)) (PrimaryAssetName i) = Some c
      \<and> fst (TryRedirect (LoadRedirectsFromConfig TypeRaw NameRaw) i)
      \<and> PrimaryAssetName (snd (TryRedirect (LoadRedirectsFromConfig TypeRaw NameRaw) i)) = c)
   \<and> (has_final (GenerateRedirectionMap TypeRaw) (PrimaryAssetType i) c \<longrightarrow>
      map_of (TypeRedirectionMap (LoadRedirectsFromConfig TypeRaw NameRaw)) (PrimaryAssetType i) = Some c
      \<and> fst (TryRedirect (LoadRedirectsFromConfig TypeRaw NameRaw) i)
      \<and> PrimaryAssetType (snd (TryRedirect (LoadRedirectsFromConfig TypeRaw NameRaw) i)) = c)"
proof (intro conjI impI)
  assume h: "has_final (GenerateRedirectionMap NameRaw) (PrimaryAssetName i) c"
  note r = resolved_final[OF h]
  show "map_of (NameRedirectionMap (LoadRedirectsFromConfig TypeRaw NameRaw)) (PrimaryAssetName i) = Some c"
    using r by (simp add: LoadRedirectsFromConfig_def)
  show "fst (TryRedirect (LoadRedirectsFromConfig TypeRaw NameRaw) i)"
    using r by (simp add: LoadRedirectsFromConfig_def TryRedirect_def TryRedirect_Name_def split: option.splits)
  show "PrimaryAssetName (snd (TryRedirect (LoadRedirectsFromConfig TypeRaw NameRaw) i)) = c"
    using r by (simp add: LoadRedirectsFromConfig_def TryRedirect_def TryRedirect_Name_def split: option.splits)
next
  assume h: "has_final (GenerateRedirectionMap TypeRaw) (PrimaryAssetType i) c"
  note r = resolved_final[OF h]
  show "map_of (TypeRedirectionMap (LoadRedirectsFromConfig TypeRaw NameRaw)) (PrimaryAssetType i) = Some c"
    using r by (simp add: LoadRedirectsFromConfig_def)
  show "fst (TryRedirect (LoadRedirectsFromConfig TypeRaw NameRaw) i)"
    using r by (simp add: LoadRedirectsFromConfig_def TryRedirect_def TryRedirect_Name_def split: option.splits)
  show "PrimaryAssetType (snd (TryRedirect (LoadRedirectsFromConfig TypeRaw NameRaw) i)) = c"
    using r by (simp add: LoadRedirectsFromConfig_def TryRedirect_def TryRedirect_Name_def split: option.splits)
qed

lemma chain_ABC_generated:
  "GenerateRedirectionMap [\<lparr>OldValue = ''A'', NewValue = ''B''\<rparr>, \<lparr>OldValue = ''B'', NewValue = ''C''\<rparr>]
     = [(''A'', ''B''), (''B'', ''C'')]"
  by (simp add: GenerateRedirectionMap_def Redirector_IsValid_def IsNone_def NAME_None_def
      TMap_Contains_def TMap_Emplace_def)

theorem redirect_chain_flattened_witness:
  "has_final (GenerateRedirectionMap
       [\<lparr>OldValue = ''A'', NewValue = ''B''\<rparr>, \<lparr>OldValue = ''B'', NewValue = ''C''\<rparr>]) ''A'' ''C''
   \<and> TryRedirect (LoadRedirectsFromConfig []
       [\<lparr>OldValue = ''A'', NewValue = ''B''\<rparr>, \<lparr>OldValue = ''B'', NewValue = ''C''\<rparr>])
       \<lparr>PrimaryAssetType = ''Weapon'', PrimaryAssetName = ''A''\<rparr>
     = (True, \<lparr>PrimaryAssetType = ''Weapon'', PrimaryAssetName = ''C''\<rparr>)"
proof -
  let ?raw = "[\<lparr>OldValue = ''A'', NewValue = ''B''\<rparr>, \<lparr>OldValue = ''B'', NewValue = ''C''\<rparr>]"
  let ?i = "\<lparr>PrimaryAssetType = ''Weapon'', PrimaryAssetName = ''A''\<rparr>"
  have "(''A'', ''C'') \<in> (set [(''A'', ''B''), (''B'', ''C'')])\<^sup>+"
    by (rule trancl_into_trancl[where b = "''B''"]) auto
  then have h: "has_final (GenerateRedirectionMap ?raw) (PrimaryAssetName ?i) ''C''"
    by (simp add: chain_ABC_generated has_final_def)
  have t: "map_of (TypeRedirectionMap (LoadRedirectsFromConfig [] ?raw)) ''Weapon'' = None"
    by (simp add: LoadRedirectsFromConfig_def GenerateRedirectionMap_def ResolveRedirectionMap_def)
  from redirect_chain_flattened[of ?raw ?i "''C''" "[]"] h
  have "map_of (NameRedirectionMap (LoadRedirectsFromConfig [] ?raw)) ''A'' = Some ''C''"
    by simp
  with t have "TryRedirect (LoadRedirectsFromConfig [] ?raw) ?i
     = (True, \<lparr>PrimaryAssetType = ''Weapon'', PrimaryAssetName = ''C''\<rparr>)"
    by (simp add: TryRedirect_def TryRedirect_Name_def)
  with h show ?thesis by simp
qed

text \<open>
  C7. A redirect whose chain runs into a cycle is put on the dirty list (which is what the
  closing error reports) and gets no entry in the resolved map, so \<open>TryRedirect\<close> leaves the
  value as it is; every entry whose chain ends at a final target is resolved to that
  target all the same. Resolution is a total function: it returns for every raw list.
\<close>

theorem redirect_cycle_falls_back_to_identity:
  "(chain_cyclic (GenerateRedirectionMap raw) k \<longrightarrow>
      TryRedirect_Name (fst (ResolveRedirectionMap (GenerateRedirectionMap raw))) k = (False, k)
      \<and> k \<in> set (snd (ResolveRedirectionMap (GenerateRedirectionMap raw))))
   \<and> (has_final (GenerateRedirectionMap raw) k' c \<longrightarrow>
      TryRedirect_Name (fst (ResolveRedirectionMap (GenerateRedirectionMap raw))) k' = (True, c))"
  using resolved_cyclic[of raw k] resolved_final[of raw k' c]
  by (simp add: TryRedirect_Name_def)

lemma cycle_AB_generated:
  "GenerateRedirectionMap [\<lparr>OldValue = ''A'', NewValue = ''B''\<rparr>, \<lparr>OldValue = ''B'', NewValue = ''A''\<rparr>,
      \<lparr>OldValue = ''C'', NewValue = ''D''\<rparr>]
     = [(''A'', ''B''), (''B'', ''A''), (''C'', ''D'')]"
  by (simp add: GenerateRedirectionMap_def Redirector_IsValid_def IsNone_def NAME_None_def
      TMap_Contains_def TMap_Emplace_def)

theorem redirect_cycle_falls_back_to_identity_witness:
  "chain_cyclic (GenerateRedirectionMap [\<lparr>OldValue = ''A'', NewValue = ''B''\<rparr>,
      \<lparr>OldValue = ''B'', NewValue = ''A''\<rparr>, \<lparr>OldValue = ''C'', NewValue = ''D''\<rparr>]) ''A''
   \<and> has_final (GenerateRedirectionMap [\<lparr>OldValue = ''A'', NewValue = ''B''\<rparr>,
      \<lparr>OldValue = ''B'', NewValue = ''A''\<rparr>, \<lparr>OldValue = ''C'', NewValue = ''D''\<rparr>]) ''C'' ''D''
   \<and> TryRedirect_Name (fst (ResolveRedirectionMap (GenerateRedirectionMap [\<lparr>OldValue = ''A'', NewValue = ''B''\<rparr>,
      \<lparr>OldValue = ''B'', NewValue = ''A''\<rparr>, \<lparr>OldValue = ''C'', NewValue = ''D''\<rparr>]))) ''A'' = (False, ''A'')
   \<and> TryRedirect_Name (fst (ResolveRedirectionMap (GenerateRedirectionMap [\<lparr>OldValue = ''A'', NewValue = ''B''\<rparr>,
      \<lparr>OldValue = ''B'', NewValue = ''A''\<rparr>, \<lparr>OldValue = ''C'', NewValue = ''D''\<rparr>]))) ''C'' = (True, ''D'')
   \<and> ResolveRedirectionMap (GenerateRedirectionMap [\<lparr>OldValue = ''A'', NewValue = ''B''\<rparr>,
      \<lparr>OldValue = ''B'', NewValue = ''A''\<rparr>, \<lparr>OldValue = ''C'', NewValue = ''D''\<rparr>])
       = ([(''C'', ''D'')], [''A'', ''B''])"
proof -
  let ?raw = "[\<lparr>OldValue = ''A'', NewValue = ''B''\<rparr>,
      \<lparr>OldValue = ''B'', NewValue = ''A''\<rparr>, \<lparr>OldValue = ''C'', NewValue = ''D''\<rparr>]"
  have "(''A'', ''A'') \<in> (set [(''A'', ''B''), (''B'', ''A''), (''C'', ''D'')])\<^sup>+"
    by (rule trancl_into_trancl[where b = "''B''"]) auto
  then have c: "chain_cyclic (GenerateRedirectionMap ?raw) ''A''"
    unfolding chain_cyclic_def cycle_AB_generated by blast
  have "(''C'', ''D'') \<in> (set [(''A'', ''B''), (''B'', ''A''), (''C'', ''D'')])\<^sup>+"
    by (rule r_into_trancl) simp
  then have f: "has_final (GenerateRedirectionMap ?raw) ''C'' ''D''"
    by (simp add: cycle_AB_generated has_final_def)
  have e: "ResolveRedirectionMap (GenerateRedirectionMap ?raw) = ([(''C'', ''D'')], [''A'', ''B''])"
    by (simp add: cycle_AB_generated ResolveRedirectionMap_def ResolveRedirectionMap_step_def
        TSet_Emplace_def TMap_Emplace_def IsNone_def NAME_None_def TSet_Append_def)
  from redirect_cycle_falls_back_to_identity[of ?raw "''A''" "''C''" "''D''"] c f e
  show ?thesis by simp
qed

section \<open>Properties of redirect insertion\<close>

lemma TArray_Find_Some:
  "TArray_Find xs x = Some i \<Longrightarrow> i < length xs \<and> xs ! i = x \<and> (\<forall>j<i. xs ! j \<noteq> x)"
proof (induction xs arbitrary: i)
  case Nil
  then show ?case by simp
next
  case (Cons y ys)
  show ?case
  proof (cases "y = x")
    case True
    with Cons.prems show ?thesis by simp
  next
    case False
    with Cons.prems obtain i' where i': "TArray_Find ys x = Some i'" "i = Suc i'" by auto
    from Cons.IH[OF i'(1)] False i'(2) show ?thesis by (auto simp: nth_Cons split: nat.splits)
  qed
qed

lemma TArray_Find_mem: "x \<in> set xs \<Longrightarrow> \<exists>i. TArray_Find xs x = Some i"
  by (induction xs) auto

lemma TArray_Find_cong:
  "length L = length xs \<Longrightarrow> (\<forall>k<length xs. (L ! k = x) = (xs ! k = x)) \<Longrightarrow>
   TArray_Find L x = TArray_Find xs x"
proof (induction xs arbitrary: L)
  case Nil
  then show ?case by simp
next
  case (Cons y ys)
  then obtain l ls where L: "L = l # ls" by (cases L) auto
  have h: "(l = x) = (y = x)" using Cons.prems(2) L by (metis length_greater_0_conv list.discI nth_Cons_0)
  have "\<forall>k<length ys. (ls ! k = x) = (ys ! k = x)"
    using Cons.prems(2) L by (metis Suc_less_eq length_Cons nth_Cons_Suc)
  then have "TArray_Find ls x = TArray_Find ys x" using Cons.IH[of ls] Cons.prems(1) L by simp
  then show ?case using h L by simp
qed

lemma GenerateRedirectionMap_loop_links:
  "(c, nx) \<in> set (GenerateRedirectionMap_loop rs m) \<Longrightarrow>
     (c, nx) \<in> set m \<or> \<lparr>OldValue = c, NewValue = nx\<rparr> \<in> set rs"
proof (induction rs arbitrary: m)
  case Nil
  then show ?case by simp
next
  case (Cons r rs)
  show ?case
  proof (cases "Redirector_IsValid r \<and> \<not> TMap_Contains m (OldValue r)")
    case True
    then have ab: "OldValue r \<notin> fst ` set m"
      by (simp add: TMap_Contains_def map_of_eq_None_iff)
    from True Cons.prems have "(c, nx) \<in> set (GenerateRedirectionMap_loop rs (TMap_Emplace m (OldValue r) (NewValue r)))"
      by simp
    from Cons.IH[OF this] show ?thesis
      by (auto simp: TMap_Emplace_def update_absent[OF ab])
  next
    case False
    then show ?thesis using Cons by (auto split: if_splits)
  qed
qed

lemma GenerateRedirectionMap_links:
  "map_of (GenerateRedirectionMap rs) c = Some nx \<Longrightarrow> \<lparr>OldValue = c, NewValue = nx\<rparr> \<in> set rs"
  using GenerateRedirectionMap_loop_links[of c nx rs "[]"]
  by (auto simp: GenerateRedirectionMap_def dest: map_of_SomeD)

lemma GenerateRedirectionMap_loop_keys:
  "fst ` set m \<subseteq> fst ` set (GenerateRedirectionMap_loop rs m) \<and>
   (\<forall>r \<in> set rs. Redirector_IsValid r \<longrightarrow> OldValue r \<in> fst ` set (GenerateRedirectionMap_loop rs m))"
proof (induction rs arbitrary: m)
  case Nil
  then show ?case by simp
next
  case (Cons r rs)
  show ?case
  proof (cases "Redirector_IsValid r")
    case False
    then show ?thesis using Cons.IH[of m] by auto
  next
    case v: True
    show ?thesis
    proof (cases "TMap_Contains m (OldValue r)")
      case True
      then have "OldValue r \<in> fst ` set m" by (simp add: TMap_Contains_def map_of_eq_None_iff)
      then show ?thesis using Cons.IH[of m] True v by auto
    next
      case False
      let ?m = "TMap_Emplace m (OldValue r) (NewValue r)"
      have k: "fst ` set ?m = insert (OldValue r) (fst ` set m)"
        by (simp add: TMap_Emplace_def dom_update)
      show ?thesis using Cons.IH[of ?m] False v k by auto
    qed
  qed
qed

lemma valid_source_in_generated:
  "r \<in> set rs \<Longrightarrow> Redirector_IsValid r \<Longrightarrow> TMap_Contains (GenerateRedirectionMap rs) (OldValue r)"
  using GenerateRedirectionMap_loop_keys[of "[]" rs]
  by (auto simp: GenerateRedirectionMap_def TMap_Contains_def map_of_eq_None_iff)

lemma ResolveValue_loop_final:
  "distinct (map fst U) \<Longrightarrow> (ov = c \<or> (ov, c) \<in> (set U)\<^sup>+) \<Longrightarrow> c \<notin> fst ` set U \<Longrightarrow>
   (\<forall>x \<in> set V. (x, ov) \<in> (set U)\<^sup>*) \<Longrightarrow> StopValue = None \<Longrightarrow>
   ResolveValue_loop U InValue StopValue ov V = c"
proof (induction U InValue StopValue ov V rule: ResolveValue_loop.induct)
  case (1 U InValue StopValue ov V)
  note d = "1.prems"(1)
  show ?case
  proof (cases "map_of U ov")
    case None
    then have "ov \<notin> fst ` set U" by (simp add: map_of_eq_None_iff)
    then have "ov = c" using "1.prems"(2) by (auto dest!: tranclD intro: rev_image_eqI)
    then show ?thesis using None by simp
  next
    case (Some nx)
    then have e: "(ov, nx) \<in> set U" by (rule map_of_SomeD)
    then have od: "ov \<in> fst ` set U" by (auto intro: rev_image_eqI)
    then have oc: "(ov, c) \<in> (set U)\<^sup>+" using "1.prems"(2,3) by auto
    then have hf: "has_final U ov c" using "1.prems"(3) by (simp add: has_final_def)
    have nv: "nx \<notin> set V"
    proof
      assume "nx \<in> set V"
      then have "(nx, ov) \<in> (set U)\<^sup>*" using "1.prems"(4) by blast
      then have "(ov, ov) \<in> (set U)\<^sup>+" using e by (meson rtrancl_into_trancl2)
      then show False using cycle_no_final[OF d _, of ov c] hf by simp
    qed
    have nxt: "nx = c \<or> (nx, c) \<in> (set U)\<^sup>+" using functional_step[OF d e oc] .
    have reach: "\<forall>x \<in> set (TSet_Emplace V ov). (x, nx) \<in> (set U)\<^sup>*"
      using "1.prems"(4) e by (auto simp: TSet_Emplace_def intro: rtrancl_into_rtrancl)
    have sn: "StopValue \<noteq> Some nx" using "1.prems"(5) by simp
    have "ResolveValue_loop U InValue StopValue nx (TSet_Emplace V ov) = c"
      using "1.IH"[OF Some sn nv d nxt "1.prems"(3) reach "1.prems"(5)] .
    then show ?thesis using Some nv sn by simp
  qed
qed

lemma ResolveValue_loop_sound:
  "distinct (map fst U) \<Longrightarrow> (InValue, ov) \<in> (set U)\<^sup>* \<Longrightarrow> StopValue = None \<Longrightarrow>
   ResolveValue_loop U InValue StopValue ov V = r \<Longrightarrow>
   r = InValue \<or> ((InValue, r) \<in> (set U)\<^sup>* \<and> r \<notin> fst ` set U)"
proof (induction U InValue StopValue ov V rule: ResolveValue_loop.induct)
  case (1 U InValue StopValue ov V)
  show ?case
  proof (cases "map_of U ov")
    case None
    then have "ov \<notin> fst ` set U" by (simp add: map_of_eq_None_iff)
    moreover have "r = ov" using None "1.prems"(4) by simp
    ultimately show ?thesis using "1.prems"(2) by simp
  next
    case (Some nx)
    then have e: "(ov, nx) \<in> set U" by (rule map_of_SomeD)
    have sn: "StopValue \<noteq> Some nx" using "1.prems"(3) by simp
    show ?thesis
    proof (cases "nx \<in> set V")
      case True
      then show ?thesis using Some sn "1.prems"(4) by simp
    next
      case False
      have r: "ResolveValue_loop U InValue StopValue nx (TSet_Emplace V ov) = r"
        using Some sn False "1.prems"(4) by simp
      have "(InValue, nx) \<in> (set U)\<^sup>*" using "1.prems"(2) e by (auto intro: rtrancl_into_rtrancl)
      from "1.IH"[OF Some sn False "1.prems"(1) this "1.prems"(3) r] show ?thesis .
    qed
  qed
qed

lemma ResolveValue_has_final:
  assumes d: "distinct (map fst U)"
  shows "ResolveValue U n None = (True, c) \<longleftrightarrow> has_final U n c"
proof
  assume "ResolveValue U n None = (True, c)"
  then have r: "ResolveValue_loop U n None n [n] = c" "n \<noteq> c"
    by (auto simp: ResolveValue_def Let_def)
  from ResolveValue_loop_sound[OF d _ _ r(1)] r(2)
  have "(n, c) \<in> (set U)\<^sup>*" "c \<notin> fst ` set U" by auto
  then show "has_final U n c" using r(2) by (auto simp: has_final_def rtrancl_eq_or_trancl)
next
  assume h: "has_final U n c"
  then have nd: "n \<in> fst ` set U" by (auto simp: has_final_def dest!: tranclD intro: rev_image_eqI)
  from h have "ResolveValue_loop U n None n [n] = c"
    by (intro ResolveValue_loop_final[OF d]) (auto simp: has_final_def)
  moreover have "n \<noteq> c" using h nd by (auto simp: has_final_def)
  ultimately show "ResolveValue U n None = (True, c)" by (simp add: ResolveValue_def)
qed

lemma reach_unfold:
  assumes d: "distinct (map fst U)" and e: "(cur, y) \<in> set U"
  shows "{c. (cur, c) \<in> (set U)\<^sup>*} = insert cur {c. (y, c) \<in> (set U)\<^sup>*}"
proof (intro set_eqI iffI)
  fix c assume "c \<in> {c. (cur, c) \<in> (set U)\<^sup>*}"
  then have "c = cur \<or> (cur, c) \<in> (set U)\<^sup>+" by (auto simp: rtrancl_eq_or_trancl)
  then show "c \<in> insert cur {c. (y, c) \<in> (set U)\<^sup>*}"
    using functional_step[OF d e, of c] by (auto intro: trancl_into_rtrancl)
next
  fix c assume "c \<in> insert cur {c. (y, c) \<in> (set U)\<^sup>*}"
  then show "c \<in> {c. (cur, c) \<in> (set U)\<^sup>*}" using e by (auto intro: converse_rtrancl_into_rtrancl)
qed

lemma link_indices_insert:
  "link_indices U rs (insert c C) = link_indices U rs {c} \<union> link_indices U rs C"
  by (auto simp: link_indices_def)

lemma swap_at_nth: "i < length rs \<Longrightarrow> swap_at I rs ! i = (if i \<in> I then SwapValues (rs ! i) else rs ! i)"
  by (simp add: swap_at_def)

lemma length_swap_at: "length (swap_at I rs) = length rs"
  by (simp add: swap_at_def)

lemma invert_correct:
  assumes d: "distinct (map fst U)"
    and gen: "\<And>c nx. map_of U c = Some nx \<Longrightarrow> \<lparr>OldValue = c, NewValue = nx\<rparr> \<in> set rs"
    and fin: "fin \<notin> fst ` set U"
  shows "(cur, fin) \<in> (set U)\<^sup>* \<Longrightarrow> P \<subseteq> fst ` set U \<Longrightarrow>
     (\<forall>p \<in> P. \<forall>c. (cur, c) \<in> (set U)\<^sup>* \<longrightarrow> c \<noteq> p) \<Longrightarrow>
     AppendRedirects_invert U cur (swap_at (link_indices U rs P) rs)
       = Some (swap_at (link_indices U rs (P \<union> {c. (cur, c) \<in> (set U)\<^sup>*})) rs)"
proof (induction arbitrary: P rule: converse_rtrancl_induct)
  case base
  have "map_of U fin = None" using fin by (simp add: map_of_eq_None_iff)
  moreover have "{c. (fin, c) \<in> (set U)\<^sup>*} = {fin}"
  proof -
    have "c = fin" if "(fin, c) \<in> (set U)\<^sup>*" for c
    proof (rule ccontr)
      assume "c \<noteq> fin"
      then have "(fin, c) \<in> (set U)\<^sup>+" using that by (auto simp: rtrancl_eq_or_trancl)
      then obtain z where "(fin, z) \<in> set U" by (auto dest: tranclD)
      then have "fin \<in> fst ` set U" by (auto intro: rev_image_eqI)
      then show False using fin by simp
    qed
    then show ?thesis by auto
  qed
  moreover have "link_indices U rs (P \<union> {fin}) = link_indices U rs P"
    using \<open>map_of U fin = None\<close> by (auto simp: link_indices_def)
  ultimately show ?case by (subst AppendRedirects_invert.simps) simp
next
  case (step cur y)
  let ?x = "\<lparr>OldValue = cur, NewValue = y\<rparr>"
  let ?L = "swap_at (link_indices U rs P) rs"
  have m: "map_of U cur = Some y" using d step(1) by simp
  have hf: "has_final U cur fin" using step(1,2) fin by (auto simp: has_final_def intro: rtrancl_into_trancl2)
  have curP: "cur \<notin> P" using step.prems(2) by blast
  obtain i where i: "TArray_Find rs ?x = Some i" using TArray_Find_mem[OF gen[OF m]] by blast
  note iP = TArray_Find_Some[OF i]
  have same: "(?L ! k = ?x) = (rs ! k = ?x)" if k: "k < length rs" for k
  proof (cases "k \<in> link_indices U rs P")
    case False
    then show ?thesis using k by (simp add: swap_at_nth)
  next
    case True
    then obtain p nx where p: "p \<in> P" "map_of U p = Some nx"
      "TArray_Find rs \<lparr>OldValue = p, NewValue = nx\<rparr> = Some k" by (auto simp: link_indices_def)
    have rk: "rs ! k = \<lparr>OldValue = p, NewValue = nx\<rparr>" using TArray_Find_Some[OF p(3)] by simp
    have "p \<noteq> cur" using p(1) curP by auto
    then have a: "rs ! k \<noteq> ?x" using rk by auto
    have "\<not> (nx = cur \<and> p = y)"
    proof
      assume "nx = cur \<and> p = y"
      then have "(cur, y) \<in> (set U)\<^sup>*" "y \<in> P" using step(1) p(1) by auto
      then show False using step.prems(2) by blast
    qed
    then have b: "SwapValues (rs ! k) \<noteq> ?x" using rk by (auto simp: SwapValues_def)
    show ?thesis using True a b k by (simp add: swap_at_nth)
  qed
  have fL: "TArray_Find ?L ?x = Some i"
    using TArray_Find_cong[of ?L rs ?x] same i by (simp add: length_swap_at)
  have li: "link_indices U rs {cur} = {i}" using m i by (auto simp: link_indices_def)
  have inP: "i \<notin> link_indices U rs P"
  proof
    assume "i \<in> link_indices U rs P"
    then obtain p nx where p: "p \<in> P" "TArray_Find rs \<lparr>OldValue = p, NewValue = nx\<rparr> = Some i"
      by (auto simp: link_indices_def)
    then have "rs ! i = \<lparr>OldValue = p, NewValue = nx\<rparr>" using TArray_Find_Some[OF p(2)] by simp
    then have "p = cur" using iP by simp
    then show False using p(1) curP by simp
  qed
  have lins: "link_indices U rs (insert cur P) = insert i (link_indices U rs P)"
    using link_indices_insert[of U rs cur P] li by simp
  have upd: "?L[i := SwapValues (?L ! i)] = swap_at (link_indices U rs (insert cur P)) rs"
  proof (rule nth_equalityI)
    show "length (?L[i := SwapValues (?L ! i)]) = length (swap_at (link_indices U rs (insert cur P)) rs)"
      by (simp add: length_swap_at)
  next
    fix k assume "k < length (?L[i := SwapValues (?L ! i)])"
    then have k: "k < length rs" by (simp add: length_swap_at)
    show "?L[i := SwapValues (?L ! i)] ! k = swap_at (link_indices U rs (insert cur P)) rs ! k"
    proof (cases "k = i")
      case True
      then show ?thesis using k inP by (simp add: length_swap_at swap_at_nth lins)
    next
      case False
      then show ?thesis using k by (simp add: length_swap_at swap_at_nth lins)
    qed
  qed
  have Pd: "insert cur P \<subseteq> fst ` set U" using step.prems(1) step(1) by (auto intro: rev_image_eqI)
  have sep: "\<forall>p \<in> insert cur P. \<forall>c. (y, c) \<in> (set U)\<^sup>* \<longrightarrow> c \<noteq> p"
  proof (intro ballI allI impI)
    fix p c assume p: "p \<in> insert cur P" and c: "(y, c) \<in> (set U)\<^sup>*"
    show "c \<noteq> p"
    proof (cases "p = cur")
      case True
      show ?thesis
      proof
        assume "c = p"
        then have "(cur, cur) \<in> (set U)\<^sup>+" using c True step(1) by (meson rtrancl_into_trancl2)
        then show False using cycle_no_final[OF d _, of cur fin] hf by simp
      qed
    next
      case False
      then have "p \<in> P" using p by simp
      moreover have "(cur, c) \<in> (set U)\<^sup>*" using c step(1) by (auto intro: converse_rtrancl_into_rtrancl)
      ultimately show ?thesis using step.prems(2) by blast
    qed
  qed
  have ih: "AppendRedirects_invert U y (swap_at (link_indices U rs (insert cur P)) rs)
       = Some (swap_at (link_indices U rs (insert cur P \<union> {c. (y, c) \<in> (set U)\<^sup>*})) rs)"
    using step.IH[OF Pd sep] .
  have eqs: "insert cur P \<union> {c. (y, c) \<in> (set U)\<^sup>*} = P \<union> {c. (cur, c) \<in> (set U)\<^sup>*}"
    using reach_unfold[OF d step(1)] by auto
  have "AppendRedirects_invert U cur ?L
      = AppendRedirects_invert U y (swap_at (link_indices U rs (insert cur P)) rs)"
    by (subst AppendRedirects_invert.simps) (simp add: m fL upd)
  then show ?case unfolding ih eqs .
qed

lemma swap_at_empty: "swap_at {} rs = rs"
  by (simp add: swap_at_def map_nth)

lemma link_indices_empty: "link_indices U rs {} = {}"
  by (simp add: link_indices_def)

lemma AppendRedirects_invert_chain:
  assumes h: "has_final (GenerateRedirectionMap rs) n c"
  shows "AppendRedirects_invert (GenerateRedirectionMap rs) n rs
     = Some (swap_at (link_indices (GenerateRedirectionMap rs) rs
          {x. (n, x) \<in> (set (GenerateRedirectionMap rs))\<^sup>*}) rs)"
proof -
  let ?U = "GenerateRedirectionMap rs"
  have d: "distinct (map fst ?U)" using GenerateRedirectionMap_inv[of rs] by (simp add: gen_inv_def)
  have fin: "c \<notin> fst ` set ?U" and r: "(n, c) \<in> (set ?U)\<^sup>*"
    using h by (auto simp: has_final_def intro: trancl_into_rtrancl)
  from invert_correct[OF d GenerateRedirectionMap_links fin r, of rs "{}"]
  show ?thesis by (simp add: swap_at_empty link_indices_empty)
qed

text \<open>
  C8. \<open>AppendRedirects\<close> returns false and leaves the redirector array as it was for a
  self-redirect, for an old value that is already the source of a valid redirector of the
  array, and for a new value that is itself a source unless inversion is requested and the
  chain from the new value ends at the old value; in that last case it returns true and the
  array with exactly the links of that chain swapped.
\<close>

theorem AppendRedirects_rejects_or_inverts:
  "(oldValue = newValue \<longrightarrow> AppendRedirects rs oldValue newValue b = Some (False, rs))
   \<and> ((\<exists>r \<in> set rs. Redirector_IsValid r \<and> OldValue r = oldValue) \<longrightarrow>
        AppendRedirects rs oldValue newValue b = Some (False, rs))
   \<and> (TMap_Contains (GenerateRedirectionMap rs) newValue \<and> \<not> b \<longrightarrow>
        AppendRedirects rs oldValue newValue b = Some (False, rs))
   \<and> (TMap_Contains (GenerateRedirectionMap rs) newValue
        \<and> \<not> has_final (GenerateRedirectionMap rs) newValue oldValue \<longrightarrow>
        AppendRedirects rs oldValue newValue b = Some (False, rs))
   \<and> (b \<and> has_final (GenerateRedirectionMap rs) newValue oldValue \<longrightarrow>
        AppendRedirects rs oldValue newValue b =
          Some (True, swap_at (link_indices (GenerateRedirectionMap rs) rs
                  {x. (newValue, x) \<in> (set (GenerateRedirectionMap rs))\<^sup>*}) rs))"
proof -
  let ?U = "GenerateRedirectionMap rs"
  have d: "distinct (map fst ?U)" using GenerateRedirectionMap_inv[of rs] by (simp add: gen_inv_def)
  note rv = ResolveValue_has_final[OF d]
  have p1: "oldValue = newValue \<longrightarrow> AppendRedirects rs oldValue newValue b = Some (False, rs)"
    by (simp add: AppendRedirects_def)
  have p2: "(\<exists>r \<in> set rs. Redirector_IsValid r \<and> OldValue r = oldValue) \<longrightarrow>
        AppendRedirects rs oldValue newValue b = Some (False, rs)"
    using valid_source_in_generated[of _ rs] by (auto simp: AppendRedirects_def Let_def)
  have p3: "TMap_Contains ?U newValue \<and> \<not> b \<longrightarrow>
        AppendRedirects rs oldValue newValue b = Some (False, rs)"
    by (simp add: AppendRedirects_def Let_def)
  have p4: "TMap_Contains ?U newValue \<and> \<not> has_final ?U newValue oldValue \<longrightarrow>
        AppendRedirects rs oldValue newValue b = Some (False, rs)"
  proof (intro impI, elim conjE)
    assume c: "TMap_Contains ?U newValue" and nf: "\<not> has_final ?U newValue oldValue"
    obtain ok v where r: "ResolveValue ?U newValue None = (ok, v)"
      by (cases "ResolveValue ?U newValue None") auto
    have "\<not> (ok \<and> v = oldValue)" using rv[of newValue oldValue] r nf by auto
    then show "AppendRedirects rs oldValue newValue b = Some (False, rs)"
      using c r by (auto simp: AppendRedirects_def Let_def)
  qed
  have p5: "b \<and> has_final ?U newValue oldValue \<longrightarrow>
        AppendRedirects rs oldValue newValue b =
          Some (True, swap_at (link_indices ?U rs {x. (newValue, x) \<in> (set ?U)\<^sup>*}) rs)"
  proof (intro impI, elim conjE)
    assume b: b and h: "has_final ?U newValue oldValue"
    have nd: "newValue \<in> fst ` set ?U"
      using h by (auto simp: has_final_def dest!: tranclD intro: rev_image_eqI)
    have od: "oldValue \<notin> fst ` set ?U" using h by (simp add: has_final_def)
    have ne: "oldValue \<noteq> newValue" using nd od by auto
    have c1: "\<not> TMap_Contains ?U oldValue" using od by (simp add: TMap_Contains_def map_of_eq_None_iff)
    have c2: "TMap_Contains ?U newValue" using nd by (simp add: TMap_Contains_def map_of_eq_None_iff)
    have r: "ResolveValue ?U newValue None = (True, oldValue)" using rv h by simp
    show "AppendRedirects rs oldValue newValue b =
          Some (True, swap_at (link_indices ?U rs {x. (newValue, x) \<in> (set ?U)\<^sup>*}) rs)"
      using b ne c1 c2 r AppendRedirects_invert_chain[OF h]
      by (simp add: AppendRedirects_def Let_def)
  qed
  from p1 p2 p3 p4 p5 show ?thesis by blast
qed

lemma chain4_generated:
  "GenerateRedirectionMap chain4 = [(''Name1'', ''Name2''), (''Name2'', ''Name3''), (''Name3'', ''Name4'')]"
  by (simp add: chain4_def GenerateRedirectionMap_def Redirector_IsValid_def IsNone_def NAME_None_def
      TMap_Contains_def TMap_Emplace_def)

lemma chain4_invert:
  "AppendRedirects chain4 ''Name4'' ''Name2'' True =
     Some (True, [\<lparr>OldValue = ''Name1'', NewValue = ''Name2''\<rparr>, \<lparr>OldValue = ''Name3'', NewValue = ''Name2''\<rparr>,
             \<lparr>OldValue = ''Name4'', NewValue = ''Name3''\<rparr>])"
  unfolding AppendRedirects_def chain4_generated
  by (simp add: TMap_Contains_def ResolveValue_def TSet_Emplace_def
      AppendRedirects_invert.simps chain4_def SwapValues_def)

theorem AppendRedirects_rejects_or_inverts_witness:
  "AppendRedirects chain4 ''Name1'' ''Name1'' True = Some (False, chain4)
   \<and> (\<exists>r \<in> set chain4. Redirector_IsValid r \<and> OldValue r = ''Name1'')
   \<and> AppendRedirects chain4 ''Name1'' ''Name7'' True = Some (False, chain4)
   \<and> TMap_Contains (GenerateRedirectionMap chain4) ''Name1''
   \<and> AppendRedirects chain4 ''Name10'' ''Name1'' False = Some (False, chain4)
   \<and> \<not> has_final (GenerateRedirectionMap chain4) ''Name1'' ''Name10''
   \<and> AppendRedirects chain4 ''Name10'' ''Name1'' True = Some (False, chain4)
   \<and> has_final (GenerateRedirectionMap chain4) ''Name2'' ''Name4''
   \<and> AppendRedirects chain4 ''Name4'' ''Name2'' True =
         Some (True, swap_at (link_indices (GenerateRedirectionMap chain4) chain4
                  {x. (''Name2'', x) \<in> (set (GenerateRedirectionMap chain4))\<^sup>*}) chain4)
   \<and> AppendRedirects chain4 ''Name4'' ''Name2'' True =
         Some (True, [\<lparr>OldValue = ''Name1'', NewValue = ''Name2''\<rparr>,
                      \<lparr>OldValue = ''Name3'', NewValue = ''Name2''\<rparr>,
                      \<lparr>OldValue = ''Name4'', NewValue = ''Name3''\<rparr>])"
proof -
  let ?U = "GenerateRedirectionMap chain4"
  have v: "\<exists>r \<in> set chain4. Redirector_IsValid r \<and> OldValue r = ''Name1''"
    by (simp add: chain4_def Redirector_IsValid_def IsNone_def NAME_None_def)
  have c: "TMap_Contains ?U ''Name1''"
    by (simp add: chain4_generated TMap_Contains_def)
  have nf: "\<not> has_final ?U ''Name1'' ''Name10''"
  proof
    assume "has_final ?U ''Name1'' ''Name10''"
    then have "(''Name1'', ''Name10'') \<in> (set ?U)\<^sup>+" by (simp add: has_final_def)
    then obtain z where "(z, ''Name10'') \<in> set ?U" by (auto dest: tranclD2)
    then show False by (simp add: chain4_generated)
  qed
  have "(''Name2'', ''Name4'') \<in> (set ?U)\<^sup>+"
    unfolding chain4_generated by (rule trancl_into_trancl[where b = "''Name3''"]) auto
  then have hf: "has_final ?U ''Name2'' ''Name4''"
    by (simp add: has_final_def chain4_generated)
  note t = AppendRedirects_rejects_or_inverts
  have 1: "AppendRedirects chain4 ''Name1'' ''Name1'' True = Some (False, chain4)"
    using t[of "''Name1''" "''Name1''" chain4 True] by simp
  have 2: "AppendRedirects chain4 ''Name1'' ''Name7'' True = Some (False, chain4)"
    using t[of "''Name1''" "''Name7''" chain4 True] v by blast
  have 3: "AppendRedirects chain4 ''Name10'' ''Name1'' False = Some (False, chain4)"
    using t[of "''Name10''" "''Name1''" chain4 False] c by blast
  have 4: "AppendRedirects chain4 ''Name10'' ''Name1'' True = Some (False, chain4)"
    using t[of "''Name10''" "''Name1''" chain4 True] c nf by blast
  have 5: "AppendRedirects chain4 ''Name4'' ''Name2'' True =
         Some (True, swap_at (link_indices ?U chain4 {x. (''Name2'', x) \<in> (set ?U)\<^sup>*}) chain4)"
    using t[of "''Name4''" "''Name2''" chain4 True] hf by blast
  from v c nf hf 1 2 3 4 5 chain4_invert show ?thesis by blast
qed

section \<open>Properties of FixupDependencies\<close>

lemma FixupDependencies_loop_records:
  "FixupDependencies_loop C i rs (vis, dm, rm, gs) = Some (vis', dm', rm', gs') \<Longrightarrow>
   vis' = vis @ map (\<lambda>(j, r). Fixed C j r) (zip [i ..< i + length rs] rs)"
proof (induction rs arbitrary: i vis dm rm gs)
  case Nil
  then show ?case by simp
next
  case (Cons r rs)
  from Cons.prems have nd: "dm (GetPrimaryAssetId r) = None" by (auto split: if_splits)
  with Cons.prems have "FixupDependencies_loop C (Suc i) rs
     (vis @ [Fixed C i r], dm(GetPrimaryAssetId r \<mapsto> i), rm(i + 1 \<mapsto> i),
      RefreshArchetypes gs (GetPrimaryAssetType r) i) = Some (vis', dm', rm', gs')"
    by (simp add: Fixed_def)
  from Cons.IH[OF this] show ?case by (simp add: upt_conv_Cons del: upt_Suc)
qed

lemma FixupDependencies_loop_repmap:
  "FixupDependencies_loop C i rs (vis, dm, rm, gs) = Some (vis', dm', rm', gs') \<Longrightarrow>
   rm' = (\<lambda>k. if i < k \<and> k \<le> i + length rs then Some (k - 1) else rm k)"
proof (induction rs arbitrary: i vis dm rm gs)
  case Nil
  then show ?case by (auto simp: fun_eq_iff)
next
  case (Cons r rs)
  from Cons.prems have nd: "dm (GetPrimaryAssetId r) = None" by (auto split: if_splits)
  with Cons.prems have "FixupDependencies_loop C (Suc i) rs
     (vis @ [Fixed C i r], dm(GetPrimaryAssetId r \<mapsto> i), rm(i + 1 \<mapsto> i),
      RefreshArchetypes gs (GetPrimaryAssetType r) i) = Some (vis', dm', rm', gs')"
    by (simp add: Fixed_def)
  from Cons.IH[OF this] show ?case by (auto simp: fun_eq_iff)
qed

lemma FixupDependencies_dense:
  assumes "FixupDependencies b s = Some s'"
  shows "ReplicationIndexDense s'"
proof -
  from assms obtain vis dm rm gs where
    l: "FixupDependencies_loop (CustomDataContainer s) 0 (DataContainer s) ([], Map.empty, Map.empty, [])
          = Some (vis, dm, rm, gs)"
    and dc: "DataContainer s' = vis" and rmap: "ReplicationMap s' = rm"
    by (auto simp: FixupDependencies_def split: if_splits option.splits)
  let ?C = "CustomDataContainer s" and ?rs = "DataContainer s"
  have v: "vis = map (\<lambda>(j, r). Fixed ?C j r) (zip [0 ..< length ?rs] ?rs)"
    using FixupDependencies_loop_records[OF l] by simp
  have m: "rm = (\<lambda>k. if 0 < k \<and> k \<le> length ?rs then Some (k - 1) else None)"
    using FixupDependencies_loop_repmap[OF l] by simp
  have len: "length vis = length ?rs" using v by simp
  have rep: "RepIndex (vis ! i) = i + 1" if "i < length vis" for i
    using that v len by (simp add: Fixed_def)
  have img: "RepIndex ` set vis = {1 .. length vis}"
  proof (intro set_eqI iffI)
    fix k assume "k \<in> RepIndex ` set vis"
    then obtain i where "i < length vis" "k = RepIndex (vis ! i)" by (auto simp: in_set_conv_nth)
    then show "k \<in> {1 .. length vis}" using rep by auto
  next
    fix k assume k: "k \<in> {1 .. length vis}"
    then have "k - 1 < length vis" "RepIndex (vis ! (k - 1)) = k" using rep[of "k - 1"] by auto
    then show "k \<in> RepIndex ` set vis" by (metis imageI nth_mem)
  qed
  have d: "dom rm = {1 .. length vis}" using m len by (auto simp: dom_def split: if_splits)
  show ?thesis unfolding ReplicationIndexDense_def dc rmap
    using rep img d m len by auto
qed

section \<open>Properties of the blob store\<close>





lemma SlotIndex_SetSlot [simp]:
  "SlotIndex t (SetSlot t' v k r) = (if t = t' then k else SlotIndex t r)"
  by (cases t; cases t') simp_all

lemma SlotView_SetSlot [simp]:
  "SlotView t (SetSlot t' v k r) = (if t = t' then v else SlotView t r)"
  by (cases t; cases t') simp_all

lemma SlotIndex_DecrIndices [simp]: "SlotIndex t (DecrIndices a r) = Dec a (SlotIndex t r)"
  by (cases t) (simp_all add: DecrIndices_def)

lemma SlotView_DecrIndices [simp]: "SlotView t (DecrIndices a r) = SlotView t r"
  by (cases t) (simp_all add: DecrIndices_def)




lemma Meta_SetSlot [simp]: "Meta (SetSlot t v k r) = Meta r"
  by (cases t) (simp_all add: Meta_def)

lemma Meta_DecrIndices [simp]: "Meta (DecrIndices a r) = Meta r"
  by (simp add: Meta_def DecrIndices_def)

lemma ShiftIndex_Meta: "ShiftIndex C a t r = Some r' \<Longrightarrow> Meta r' = Meta r"
  by (auto simp: ShiftIndex_def split: if_splits option.splits)

lemma ShiftRecord_Meta: "ShiftRecord C a r = Some r' \<Longrightarrow> Meta r' = Meta r"
  by (auto simp: ShiftRecord_def split: option.splits dest!: ShiftIndex_Meta)

lemma those_map_D:
  "those (map f xs) = Some ys \<Longrightarrow> length ys = length xs \<and> (\<forall>i < length xs. f (xs ! i) = Some (ys ! i))"
proof (induction xs arbitrary: ys)
  case Nil
  then show ?case by simp
next
  case (Cons x xs)
  then obtain y ys' where y: "f x = Some y" "those (map f xs) = Some ys'" "ys = y # ys'"
    by (auto split: option.splits)
  from Cons.IH[OF y(2)] y show ?case by (auto simp: nth_Cons split: nat.splits)
qed

lemma RemoveCustomData_Meta:
  assumes "RemoveCustomData a s = Some s'"
  shows "map Meta (DataContainer s') = map Meta (DataContainer s) \<and> same_secondary s s'"
proof (cases "IsValidIndex (CustomDataContainer s) a
              \<and> IsValidIndex (RemoveAt (CustomDataContainer s) (nat a)) a")
  case False
  with assms show ?thesis
    by (auto simp: RemoveCustomData_def Let_def same_secondary_def split: if_splits)
next
  case True
  with assms obtain records where
    r: "those (map (ShiftRecord (RemoveAt (CustomDataContainer s) (nat a)) a) (DataContainer s)) = Some records"
    and s': "s' = s\<lparr>DataContainer := records,
                     CustomDataContainer := RemoveAt (CustomDataContainer s) (nat a)\<rparr>"
    by (auto simp: RemoveCustomData_def Let_def split: option.splits)
  note d = those_map_D[OF r]
  have "map Meta records = map Meta (DataContainer s)"
    using d by (auto intro!: nth_equalityI dest!: ShiftRecord_Meta)
  then show ?thesis using s' by (simp add: same_secondary_def)
qed

lemma RefreshCustomData_Meta:
  assumes "RefreshCustomData t v i s = Some s'" and i: "i < length (DataContainer s)"
  shows "map Meta (DataContainer s') = map Meta (DataContainer s) \<and> same_secondary s s'"
proof -
  let ?E = "DataContainer s ! i"
  show ?thesis
  proof (cases "SlotView t ?E \<noteq> None \<and> SlotIndex t ?E \<noteq> INDEX_NONE
         \<and> GetScriptStruct (SlotView t ?E) = GetScriptStruct v")
    case True
    with assms(1) have "s' = s\<lparr>
               DataContainer := (DataContainer s)[i := SetSlot t v (SlotIndex t ?E) ?E],
               CustomDataContainer := (CustomDataContainer s)[nat (SlotIndex t ?E) := v]\<rparr>"
      by (auto simp: RefreshCustomData_def Let_def split: option.splits if_splits)
    then show ?thesis using i by (simp add: same_secondary_def map_update list_update_same_conv)
  next
    case False
    then obtain s1 where s1: "(if SlotView t ?E \<noteq> None \<and> SlotIndex t ?E \<noteq> INDEX_NONE
               then RemoveCustomData (SlotIndex t ?E) s else Some s) = Some s1"
      and s': "s' = (if v \<noteq> None
             then s1\<lparr>DataContainer := (DataContainer s1)
                 [i := SetSlot t v (int (length (CustomDataContainer s1))) (DataContainer s1 ! i)],
               CustomDataContainer := CustomDataContainer s1 @ [v]\<rparr>
             else s1\<lparr>DataContainer := (DataContainer s1)[i := SetSlot t None INDEX_NONE (DataContainer s1 ! i)]\<rparr>)"
      using assms(1) by (auto simp: RefreshCustomData_def Let_def split: option.splits if_splits)
    have m1: "map Meta (DataContainer s1) = map Meta (DataContainer s) \<and> same_secondary s s1"
      using s1 RemoveCustomData_Meta[of "SlotIndex t ?E" s s1]
      by (auto simp: same_secondary_def split: if_splits)
    then have "length (DataContainer s1) = length (DataContainer s)" by (metis length_map)
    then have i1: "i < length (DataContainer s1)" using i by simp
    have "map Meta (DataContainer s') = map Meta (DataContainer s1) \<and> same_secondary s1 s'"
      using s' i1 by (auto simp: same_secondary_def map_update list_update_same_conv)
    then show ?thesis using m1 by (auto simp: same_secondary_def)
  qed
qed









lemma FindBy_None_iff: "FindBy P xs = None \<longleftrightarrow> (\<forall>x \<in> set xs. \<not> P x)"
  by (induction xs) auto

lemma FindBy_Some: "FindBy P xs = Some k \<Longrightarrow> k < length xs \<and> P (xs ! k) \<and> (\<forall>j<k. \<not> P (xs ! j))"
proof (induction xs arbitrary: k)
  case Nil
  then show ?case by simp
next
  case (Cons x xs)
  show ?case
  proof (cases "P x")
    case True
    with Cons.prems show ?thesis by simp
  next
    case False
    with Cons.prems obtain k' where k': "FindBy P xs = Some k'" "k = Suc k'" by auto
    from Cons.IH[OF k'(1)] False k'(2) show ?thesis by (auto simp: nth_Cons split: nat.splits)
  qed
qed

lemma GroupType_InvalidateGroup: "map GroupType (InvalidateGroup gs k) = map GroupType gs"
proof (cases "k < length gs")
  case True
  then show ?thesis by (auto simp: InvalidateGroup_def intro!: nth_equalityI simp: nth_list_update)
next
  case False
  then have "gs[k := (gs ! k)\<lparr>GroupChecksum := 0\<rparr>] = gs" by (intro list_update_beyond) simp
  then show ?thesis by (simp add: InvalidateGroup_def)
qed

lemma Meta_ids: "map Meta dc' = map Meta dc \<Longrightarrow> map GetPrimaryAssetId dc' = map GetPrimaryAssetId dc"
proof -
  assume a: "map Meta dc' = map Meta dc"
  have "GetPrimaryAssetId = (\<lambda>m. PrimaryAssetId (fst m)) \<circ> Meta"
    by (auto simp: GetPrimaryAssetId_def Meta_def fun_eq_iff)
  then have "map GetPrimaryAssetId dc' = map (\<lambda>m. PrimaryAssetId (fst m)) (map Meta dc')" by simp
  also have "\<dots> = map (\<lambda>m. PrimaryAssetId (fst m)) (map Meta dc)" using a by simp
  also have "\<dots> = map GetPrimaryAssetId dc"
    by (simp add: GetPrimaryAssetId_def Meta_def)
  finally show ?thesis .
qed

lemma Meta_nth: "map Meta dc' = map Meta dc \<Longrightarrow> j < length dc \<Longrightarrow> Meta (dc' ! j) = Meta (dc ! j)"
  by (metis length_map nth_map)


section \<open>The update branch of AppendData\<close>

lemma Armory_reset:
  "Reset FCommonInventoryRegistryState_default [Bow, Axe (Durability 100 2)] = Some (Armory (Durability 100 2))"
  by (simp add: Reset_def Sort_def RecordKey_def Bow_def Axe_def Armory_def Durability_def
      GetPrimaryAssetType_def GetPrimaryAssetName_def GetPrimaryAssetId_def Bow_id_def Axe_id_def
      FCommonInventoryRegistryState_default_def INDEX_NONE_def InvalidateChecksum_def
      FixupDependencies_def record_less_def RefreshViewData_def IsValidIndex_def RefreshArchetypes_def
      CeilLogTwo_def bit_length.simps numeral_2_eq_2)

lemma all_EPayloadSlot: "(\<forall>t. P t) \<longleftrightarrow> P DefaultPayloadSlot \<and> P CustomDataSlot"
  by (metis EPayloadSlot.exhaust)

lemma all_less_Suc: "(\<forall>j < Suc n. P j) \<longleftrightarrow> P n \<and> (\<forall>j < n. P j)"
  by (auto simp: less_Suc_eq)






lemma Armory_update_retyped:
  "map_option (\<lambda>(b, s). (b, map DefaultPayloadIndex (DataContainer s), CustomDataContainer s))
     (AppendData (Armory (Durability 100 2)) (Axe Quiver))
   = Some (False, [1, 0], [Durability 50 1, Quiver])"
  by (simp add: AppendData_def AppendData_update_def ContainsRecord_def Armory_def Axe_def Bow_def
      GetPrimaryAssetId_def RefreshCustomData_def Durability_def INDEX_NONE_def GetScriptStruct_def
      At_def IsValidIndex_def FindArchetypeGroup_def GetPrimaryAssetType_def Axe_id_def Bow_id_def Let_def
      InvalidateGroup_def InvalidateChecksum_def Quiver_def RemoveCustomData_def RemoveAt_def
      ShiftRecord_def ShiftIndex_def)


section \<open>An invalid entry does not block an insertion\<close>

text \<open>
  C8, as stated, fails where the old value is the source only of an entry that
  \<open>GenerateRedirectionMap\<close> skips as invalid (here a self-redirect left in the array):
  the insertion is accepted and the array grows.
\<close>

theorem AppendRedirects_invalid_entry_counterexample:
  "OldValue (hd [\<lparr>OldValue = ''Name1'', NewValue = ''Name1''\<rparr>]) = ''Name1''
   \<and> AppendRedirects [\<lparr>OldValue = ''Name1'', NewValue = ''Name1''\<rparr>] ''Name1'' ''Name2'' False
       = Some (True, [\<lparr>OldValue = ''Name1'', NewValue = ''Name1''\<rparr>,
                      \<lparr>OldValue = ''Name1'', NewValue = ''Name2''\<rparr>])"
  by (simp add: AppendRedirects_def GenerateRedirectionMap_def Redirector_IsValid_def
      TMap_Contains_def)

section \<open>Replication indices\<close>

lemma AppendData_update_secondary:
  assumes "AppendData_update s InRecord = Some (b, s')"
  shows "\<not> b \<and> map RepIndex (DataContainer s') = map RepIndex (DataContainer s)
         \<and> ReplicationMap s' = ReplicationMap s \<and> DataMap s' = DataMap s"
proof -
  let ?dc = "DataContainer s"
  from assms obtain i where i: "DataMap s (GetPrimaryAssetId InRecord) = Some i" "i < length ?dc"
    by (auto simp: AppendData_update_def split: option.splits if_splits)
  let ?E0 = "(?dc ! i)\<lparr>SharedData := SharedData InRecord, AssetPath := AssetPath InRecord\<rparr>"
  let ?s0 = "s\<lparr>DataContainer := ?dc[i := ?E0]\<rparr>"
  from assms i obtain s1 s2 k where
    s1: "RefreshCustomData DefaultPayloadSlot (DefaultPayload InRecord) i ?s0 = Some s1"
    and s2: "RefreshCustomData CustomDataSlot (CustomData InRecord) i s1 = Some s2"
    and r: "b = False" "s' = s2\<lparr>DataContainer := (DataContainer s2)[i := InvalidateChecksum (DataContainer s2 ! i)],
                 Archetypes := InvalidateGroup (Archetypes s2) k, StateChecksum := 0\<rparr>"
    by (auto simp: AppendData_update_def split: option.splits if_splits)
  have il0: "i < length (DataContainer ?s0)" using i by simp
  note m1 = RefreshCustomData_Meta[OF s1 il0]
  then have "length (DataContainer s1) = length (DataContainer ?s0)" by (metis length_map)
  then have il1: "i < length (DataContainer s1)" using i by simp
  note m2 = RefreshCustomData_Meta[OF s2 il1]
  have meta: "map Meta (DataContainer s2) = map Meta (?dc[i := ?E0])" using m1 m2 by simp
  have rep: "map RepIndex dc1 = map RepIndex dc2" if "map Meta dc1 = map Meta dc2" for dc1 dc2
  proof -
    have "RepIndex = (\<lambda>m. fst (snd (snd m))) \<circ> Meta" by (auto simp: Meta_def fun_eq_iff)
    then have "map RepIndex dc1 = map (\<lambda>m. fst (snd (snd m))) (map Meta dc1)"
      "map RepIndex dc2 = map (\<lambda>m. fst (snd (snd m))) (map Meta dc2)" by simp_all
    then show ?thesis using that by simp
  qed
  have "map RepIndex (DataContainer s2) = map RepIndex (?dc[i := ?E0])" using rep[OF meta] .
  also have "\<dots> = map RepIndex ?dc" using i by (simp add: map_update list_update_same_conv)
  finally have a: "map RepIndex (DataContainer s2) = map RepIndex ?dc" .
  have l2: "length (DataContainer s2) = length ?dc" using a by (metis length_map)
  have "map RepIndex (DataContainer s') = map RepIndex (DataContainer s2)"
    using r(2) i l2 by (simp add: map_update list_update_same_conv InvalidateChecksum_def)
  moreover have "ReplicationMap s' = ReplicationMap s" "DataMap s' = DataMap s"
    using r(2) m1 m2 by (simp_all add: same_secondary_def)
  ultimately show ?thesis using r(1) a by simp
qed

lemma AppendData_True_Fixup:
  "AppendData s InRecord = Some (True, s') \<Longrightarrow> \<exists>s0. FixupDependencies True s0 = Some s'"
  by (auto simp: AppendData_def AppendData_insert_def Let_def split: if_splits prod.splits
      dest: AppendData_update_secondary)

lemma RemoveData_True_Fixup:
  "RemoveData s k = Some (True, s') \<Longrightarrow> \<exists>s0. FixupDependencies True s0 = Some s'"
  by (auto simp: RemoveData_def split: option.splits if_splits)

lemma Reset_Fixup: "Reset s rs = Some s' \<Longrightarrow> \<exists>s0. FixupDependencies False s0 = Some s'"
  by (auto simp: Reset_def split: prod.splits)

lemma ReplicationIndexDense_cong:
  "ReplicationIndexDense s \<Longrightarrow> map RepIndex (DataContainer s') = map RepIndex (DataContainer s) \<Longrightarrow>
   ReplicationMap s' = ReplicationMap s \<Longrightarrow> ReplicationIndexDense s'"
proof -
  assume d: "ReplicationIndexDense s" and m: "map RepIndex (DataContainer s') = map RepIndex (DataContainer s)"
    and r: "ReplicationMap s' = ReplicationMap s"
  have l: "length (DataContainer s') = length (DataContainer s)" using m by (metis length_map)
  have n: "RepIndex (DataContainer s' ! i) = RepIndex (DataContainer s ! i)" if "i < length (DataContainer s)" for i
    using m that l by (metis nth_map)
  have "RepIndex ` set (DataContainer s') = RepIndex ` set (DataContainer s)" using m by (metis set_map)
  then show ?thesis using d l n r by (simp add: ReplicationIndexDense_def)
qed

text \<open>
  C4. After every successful mutation the replication indices are dense: a \<open>Reset\<close>, an
  inserting \<open>AppendData\<close> and a \<open>RemoveData\<close> that removes a record end in
  \<open>FixupDependencies\<close>, which gives the record at position \<open>i\<close> the index \<open>i + 1\<close> and
  makes \<open>1 .. N\<close> the keys of the replication map; an updating \<open>AppendData\<close> touches
  neither, so it keeps the indices dense.
\<close>

theorem replication_indices_dense:
  "(Reset s rs = Some s' \<longrightarrow> ReplicationIndexDense s')
   \<and> (AppendData s InRecord = Some (True, s') \<longrightarrow> ReplicationIndexDense s')
   \<and> (RemoveData s k = Some (True, s') \<longrightarrow> ReplicationIndexDense s')
   \<and> (ReplicationIndexDense s \<and> AppendData s InRecord = Some (False, s') \<longrightarrow> ReplicationIndexDense s')"
proof (intro conjI impI)
  assume "Reset s rs = Some s'"
  then show "ReplicationIndexDense s'" by (auto dest!: Reset_Fixup FixupDependencies_dense)
next
  assume "AppendData s InRecord = Some (True, s')"
  then show "ReplicationIndexDense s'" by (auto dest!: AppendData_True_Fixup FixupDependencies_dense)
next
  assume "RemoveData s k = Some (True, s')"
  then show "ReplicationIndexDense s'" by (auto dest!: RemoveData_True_Fixup FixupDependencies_dense)
next
  assume a: "ReplicationIndexDense s \<and> AppendData s InRecord = Some (False, s')"
  then have "AppendData_update s InRecord = Some (False, s')"
    by (auto simp: AppendData_def AppendData_insert_def Let_def split: if_splits prod.splits)
  from AppendData_update_secondary[OF this] a show "ReplicationIndexDense s'"
    by (auto intro: ReplicationIndexDense_cong)
qed

section \<open>The second example\<close>

lemmas ex_defs = Stocked_def Elixir_def Elixir_id_def Club_def Axe_def Bow_def Axe_id_def Bow_id_def
  Durability_def INDEX_NONE_def GetPrimaryAssetId_def GetPrimaryAssetType_def GetPrimaryAssetName_def

lemma Stocked_wf: "wf_state Stocked"
  by (simp add: wf_state_def blobs_ok_def blobs_ok_on_def slot_ok_def maps_coherent_def groups_exact_def
      ex_defs IsValidIndex_def all_EPayloadSlot all_less_Suc numeral_3_eq_3 split: if_splits)

lemma Stocked_update:
  "\<exists>s'. AppendData Stocked (Axe (Durability 120 3)) = Some (False, s')"
  by (simp add: AppendData_def AppendData_update_def ContainsRecord_def ex_defs
      RefreshCustomData_def GetScriptStruct_def At_def IsValidIndex_def FindArchetypeGroup_def Let_def
      InvalidateGroup_def InvalidateChecksum_def)

lemma Stocked_insert:
  "\<exists>s'. AppendData Stocked Club = Some (True, s')"
  by (simp add: AppendData_def AppendData_insert_def ContainsRecord_def ex_defs LowerBound_def Insert_def
      AppendCustomData_def FindArchetypeGroup_def Let_def record_less_def
      InvalidateGroup_def InvalidateChecksum_def FixupDependencies_def RefreshViewData_def
      IsValidIndex_def RefreshArchetypes_def)

lemma Stocked_remove:
  "\<exists>s'. RemoveData Stocked Bow_id = Some (True, s')"
  by (simp add: RemoveData_def RemoveData_slot_def RemoveCustomData_def RemoveAt_def ex_defs
      FindArchetypeGroup_def Let_def record_less_def ShiftRecord_def ShiftIndex_def
      InvalidateGroup_def FixupDependencies_def RefreshViewData_def
      IsValidIndex_def RefreshArchetypes_def)

lemma Stocked_dense: "ReplicationIndexDense Stocked"
proof -
  have "{1 .. 3 :: nat} = {1, 2, 3}" by auto
  then show ?thesis
    by (auto simp: ReplicationIndexDense_def ex_defs less_Suc_eq numeral_3_eq_3 split: if_splits)
qed

theorem replication_indices_dense_witness:
  "Reset FCommonInventoryRegistryState_default [Bow, Axe (Durability 100 2)] = Some (Armory (Durability 100 2))
   \<and> ReplicationIndexDense (Armory (Durability 100 2))
   \<and> map_option fst (AppendData Stocked Club) = Some True
   \<and> ReplicationIndexDense (Restocked Club)
   \<and> map_option fst (RemoveData Stocked Bow_id) = Some True
   \<and> ReplicationIndexDense (Destocked Bow_id)
   \<and> ReplicationIndexDense Stocked
   \<and> map_option fst (AppendData Stocked (Axe (Durability 120 3))) = Some False
   \<and> ReplicationIndexDense (Restocked (Axe (Durability 120 3)))"
proof -
  from Stocked_insert obtain s1 where s1: "AppendData Stocked Club = Some (True, s1)" by blast
  from Stocked_remove obtain s2 where s2: "RemoveData Stocked Bow_id = Some (True, s2)" by blast
  from Stocked_update obtain s3 where s3: "AppendData Stocked (Axe (Durability 120 3)) = Some (False, s3)"
    by blast
  have "ReplicationIndexDense (Armory (Durability 100 2))"
    using replication_indices_dense[where s = FCommonInventoryRegistryState_default
        and rs = "[Bow, Axe (Durability 100 2)]" and s' = "Armory (Durability 100 2)"] Armory_reset by simp
  moreover have "ReplicationIndexDense s1"
    using replication_indices_dense[where s = Stocked and s' = s1 and InRecord = Club] s1 by simp
  moreover have "ReplicationIndexDense s2"
    using replication_indices_dense[where s = Stocked and s' = s2 and k = Bow_id] s2 by simp
  moreover have "ReplicationIndexDense s3"
    using replication_indices_dense[where s = Stocked and s' = s3 and InRecord = "Axe (Durability 120 3)"] s3 Stocked_dense by simp
  ultimately show ?thesis
    using Armory_reset Stocked_dense s1 s2 s3 by (simp add: Restocked_def Destocked_def)
qed

section \<open>Checksum invalidation\<close>

lemma RefreshArchetypes_types:
  "GroupType ` set (RefreshArchetypes gs t i) = insert t (GroupType ` set gs)"
proof (cases "gs = [] \<or> GroupType (last gs) \<noteq> t")
  case True
  then show ?thesis by (auto simp: RefreshArchetypes_def Let_def)
next
  case False
  then have ne: "gs \<noteq> []" and lt: "GroupType (last gs) = t" by auto
  have "set gs = set (butlast gs) \<union> {last gs}" using ne
    by (metis append_butlast_last_id list.set(1) list.simps(15) set_append)
  then have "GroupType ` set gs = GroupType ` set (butlast gs) \<union> {t}" using lt by auto
  then show ?thesis using False by (auto simp: RefreshArchetypes_def Let_def)
qed

lemma RefreshArchetypes_fresh:
  assumes "\<forall>g \<in> set gs. GroupChecksum g = 0"
  shows "\<forall>g \<in> set (RefreshArchetypes gs t i). GroupChecksum g = 0"
proof (cases "gs = [] \<or> GroupType (last gs) \<noteq> t")
  case True
  then show ?thesis using assms by (auto simp: RefreshArchetypes_def Let_def)
next
  case False
  then have ne: "gs \<noteq> []" by auto
  then have "last gs \<in> set gs" by simp
  moreover have "set (butlast gs) \<subseteq> set gs" by (auto dest: in_set_butlastD)
  ultimately show ?thesis using False assms by (auto simp: RefreshArchetypes_def Let_def)
qed

lemma FixupDependencies_loop_groups:
  "FixupDependencies_loop C i rs (vis, dm, rm, gs) = Some (vis', dm', rm', gs') \<Longrightarrow>
   GroupType ` set gs' = GroupType ` set gs \<union> GetPrimaryAssetType ` set rs
   \<and> ((\<forall>g \<in> set gs. GroupChecksum g = 0) \<longrightarrow> (\<forall>g \<in> set gs'. GroupChecksum g = 0))"
proof (induction rs arbitrary: i vis dm rm gs)
  case Nil
  then show ?case by simp
next
  case (Cons r rs)
  from Cons.prems have nd: "dm (GetPrimaryAssetId r) = None" by (auto split: if_splits)
  with Cons.prems have "FixupDependencies_loop C (Suc i) rs
     (vis @ [Fixed C i r], dm(GetPrimaryAssetId r \<mapsto> i), rm(i + 1 \<mapsto> i),
      RefreshArchetypes gs (GetPrimaryAssetType r) i) = Some (vis', dm', rm', gs')"
    by (simp add: Fixed_def)
  from Cons.IH[OF this] RefreshArchetypes_types[of gs "GetPrimaryAssetType r" i]
    RefreshArchetypes_fresh[of gs "GetPrimaryAssetType r" i]
  show ?case by auto
qed

lemma FixupDependencies_loop_distinct:
  "FixupDependencies_loop C i rs (vis, dm, rm, gs) = Some (vis', dm', rm', gs') \<Longrightarrow>
   distinct (map GetPrimaryAssetId rs) \<and> (\<forall>r \<in> set rs. dm (GetPrimaryAssetId r) = None)"
proof (induction rs arbitrary: i vis dm rm gs)
  case Nil
  then show ?case by simp
next
  case (Cons r rs)
  from Cons.prems have nd: "dm (GetPrimaryAssetId r) = None" by (auto split: if_splits)
  with Cons.prems have "FixupDependencies_loop C (Suc i) rs
     (vis @ [Fixed C i r], dm(GetPrimaryAssetId r \<mapsto> i), rm(i + 1 \<mapsto> i),
      RefreshArchetypes gs (GetPrimaryAssetType r) i) = Some (vis', dm', rm', gs')"
    by (simp add: Fixed_def)
  from Cons.IH[OF this] nd show ?case by (auto split: if_splits)
qed

lemma FindBy_map: "FindBy P (map f xs) = FindBy (P \<circ> f) xs"
  by (induction xs) auto

lemma FindBy_cong: "(\<And>x. x \<in> set xs \<Longrightarrow> P x = Q x) \<Longrightarrow> FindBy P xs = FindBy Q xs"
  by (induction xs) auto

lemma GroupType_MigrateChecksum [simp]: "GroupType (MigrateChecksum c g) = GroupType g"
  by (simp add: MigrateChecksum_def split: option.splits)

lemma FindArchetypeGroup_types:
  "map GroupType gs' = map GroupType gs \<Longrightarrow> FindArchetypeGroup gs' t = FindArchetypeGroup gs t"
proof -
  assume a: "map GroupType gs' = map GroupType gs"
  have "FindArchetypeGroup gs' t = FindBy (\<lambda>x. x = t) (map GroupType gs')"
    by (simp add: FindArchetypeGroup_def FindBy_map comp_def)
  also have "\<dots> = FindBy (\<lambda>x. x = t) (map GroupType gs)" using a by simp
  also have "\<dots> = FindArchetypeGroup gs t"
    by (simp add: FindArchetypeGroup_def FindBy_map comp_def)
  finally show ?thesis .
qed

lemma FindArchetypeGroup_None_iff:
  "FindArchetypeGroup gs t = None \<longleftrightarrow> t \<notin> GroupType ` set gs"
  by (auto simp: FindArchetypeGroup_def FindBy_None_iff)

lemma ArchetypeChecksum_migrate:
  "ArchetypeChecksum (map (MigrateChecksum cached) gs) t =
     (case FindArchetypeGroup gs t of
        None \<Rightarrow> None
      | Some k \<Rightarrow>
          (case ArchetypeChecksum cached t of
             Some c \<Rightarrow> Some c
           | None \<Rightarrow> Some (GroupChecksum (gs ! k))))"
proof -
  have f: "FindArchetypeGroup (map (MigrateChecksum cached) gs) t = FindArchetypeGroup gs t"
    by (rule FindArchetypeGroup_types) simp
  show ?thesis
  proof (cases "FindArchetypeGroup gs t")
    case None
    then show ?thesis using f by (simp add: ArchetypeChecksum_def)
  next
    case (Some k)
    then have k: "k < length gs" "GroupType (gs ! k) = t"
      using FindBy_Some[of "\<lambda>g. GroupType g = t" gs k] by (simp_all add: FindArchetypeGroup_def)
    then show ?thesis using f Some
      by (auto simp: ArchetypeChecksum_def MigrateChecksum_def split: option.splits)
  qed
qed

lemma ArchetypeChecksum_InvalidateGroup:
  assumes "FindArchetypeGroup gs t0 = Some k"
  shows "ArchetypeChecksum (InvalidateGroup gs k) t = (if t = t0 then Some 0 else ArchetypeChecksum gs t)"
proof -
  have k: "k < length gs" "GroupType (gs ! k) = t0"
    using FindBy_Some[of "\<lambda>g. GroupType g = t0" gs k] assms by (simp_all add: FindArchetypeGroup_def)
  have f: "FindArchetypeGroup (InvalidateGroup gs k) t = FindArchetypeGroup gs t"
    by (rule FindArchetypeGroup_types) (rule GroupType_InvalidateGroup)
  show ?thesis
  proof (cases "t = t0")
    case True
    then show ?thesis using f assms k by (simp add: ArchetypeChecksum_def InvalidateGroup_def)
  next
    case False
    show ?thesis
    proof (cases "FindArchetypeGroup gs t")
      case None
      then show ?thesis using f False by (simp add: ArchetypeChecksum_def)
    next
      case (Some k')
      then have "GroupType (gs ! k') = t"
        using FindBy_Some[of "\<lambda>g. GroupType g = t" gs k'] by (simp add: FindArchetypeGroup_def)
      then have "k' \<noteq> k" using k False by auto
      then show ?thesis using f False Some by (simp add: ArchetypeChecksum_def InvalidateGroup_def)
    qed
  qed
qed

lemma Fixed_id_checksum [simp]:
  "GetPrimaryAssetId (Fixed C i r) = GetPrimaryAssetId r" "Checksum (Fixed C i r) = Checksum r"
  "GetPrimaryAssetType (Fixed C i r) = GetPrimaryAssetType r"
  by (simp_all add: Fixed_def GetPrimaryAssetId_def GetPrimaryAssetType_def)

lemma map_Fixed_zip:
  "(\<And>i r. f (Fixed C i r) = f r) \<Longrightarrow>
   map f (map (\<lambda>(j, r). Fixed C j r) (zip [0 ..< length rs] rs)) = map f rs"
  by (auto intro!: nth_equalityI)

lemma FixupDependencies_checksums:
  assumes "FixupDependencies True s0 = Some s'"
  shows "StateChecksum s' = 0
    \<and> RecordChecksum (DataContainer s') = RecordChecksum (DataContainer s0)
    \<and> distinct (map GetPrimaryAssetId (DataContainer s0))
    \<and> map GetPrimaryAssetId (DataContainer s') = map GetPrimaryAssetId (DataContainer s0)
    \<and> map Checksum (DataContainer s') = map Checksum (DataContainer s0)
    \<and> (\<forall>t. ArchetypeChecksum (Archetypes s') t =
          (if t \<in> GetPrimaryAssetType ` set (DataContainer s0)
           then (case ArchetypeChecksum (Archetypes s0) t of Some c \<Rightarrow> Some c | None \<Rightarrow> Some 0)
           else None))"
proof -
  from assms obtain vis dm rm gs where
    l: "FixupDependencies_loop (CustomDataContainer s0) 0 (DataContainer s0) ([], Map.empty, Map.empty, [])
          = Some (vis, dm, rm, gs)"
    and dc: "DataContainer s' = vis" and ar: "Archetypes s' = map (MigrateChecksum (Archetypes s0)) gs"
    and sc: "StateChecksum s' = 0"
    by (auto simp: FixupDependencies_def split: if_splits option.splits)
  let ?C = "CustomDataContainer s0" and ?rs = "DataContainer s0"
  have v: "vis = map (\<lambda>(j, r). Fixed ?C j r) (zip [0 ..< length ?rs] ?rs)"
    using FixupDependencies_loop_records[OF l] by simp
  have ids: "map GetPrimaryAssetId vis = map GetPrimaryAssetId ?rs"
    unfolding v by (rule map_Fixed_zip) simp
  have cs: "map Checksum vis = map Checksum ?rs"
    unfolding v by (rule map_Fixed_zip) simp
  have tb: "map (\<lambda>r. (GetPrimaryAssetId r, Checksum r)) vis = map (\<lambda>r. (GetPrimaryAssetId r, Checksum r)) ?rs"
    unfolding v by (rule map_Fixed_zip) simp
  note g = FixupDependencies_loop_groups[OF l]
  have gt: "GroupType ` set gs = GetPrimaryAssetType ` set ?rs" using g by simp
  have g0: "\<forall>g \<in> set gs. GroupChecksum g = 0" using g by simp
  have di: "distinct (map GetPrimaryAssetId ?rs)" using FixupDependencies_loop_distinct[OF l] by simp
  have "ArchetypeChecksum (Archetypes s') t =
          (if t \<in> GetPrimaryAssetType ` set ?rs
           then (case ArchetypeChecksum (Archetypes s0) t of Some c \<Rightarrow> Some c | None \<Rightarrow> Some 0)
           else None)" for t
  proof (cases "FindArchetypeGroup gs t")
    case None
    then have "t \<notin> GetPrimaryAssetType ` set ?rs" using gt by (simp add: FindArchetypeGroup_None_iff)
    then show ?thesis using None by (simp add: ar ArchetypeChecksum_migrate)
  next
    case (Some k)
    then have "t \<in> GetPrimaryAssetType ` set ?rs"
      using gt FindArchetypeGroup_None_iff[of gs t] by auto
    moreover have "k < length gs" using FindBy_Some[of "\<lambda>g. GroupType g = t" gs k] Some
      by (simp add: FindArchetypeGroup_def)
    then have "GroupChecksum (gs ! k) = 0" using g0 by simp
    ultimately show ?thesis using Some by (simp add: ar ArchetypeChecksum_migrate split: option.splits)
  qed
  moreover have "RecordChecksum vis = RecordChecksum ?rs"
    by (rule ext) (simp add: RecordChecksum_def tb)
  ultimately show ?thesis using sc dc ids cs di by simp
qed

lemma map_of_split:
  assumes "a \<notin> fst ` set xs"
  shows "map_of (xs @ (a, v) # ys) k = (if k = a then Some v else map_of (xs @ ys) k)"
proof -
  have "map_of xs a = None" using assms by (simp add: map_of_eq_None_iff)
  then show ?thesis by (cases "k = a") (simp_all add: map_add_def split: option.splits)
qed

lemma map_of_absent:
  assumes "a \<notin> fst ` set xs" "a \<notin> fst ` set ys"
  shows "map_of (xs @ ys) a = None"
proof -
  have "map_of xs a = None" "map_of ys a = None" using assms by (simp_all add: map_of_eq_None_iff)
  then show ?thesis by (simp add: map_add_def)
qed

lemma RecordChecksum_Meta:
  assumes "map Meta dc' = map Meta dc"
  shows "RecordChecksum dc' = RecordChecksum dc"
proof -
  let ?g = "\<lambda>m :: FCommonItemSharedData \<times> string \<times> nat \<times> 32 word. (PrimaryAssetId (fst m), snd (snd (snd m)))"
  have e: "map (\<lambda>r. (GetPrimaryAssetId r, Checksum r)) xs = map ?g (map Meta xs)" for xs
    by (simp add: GetPrimaryAssetId_def Meta_def)
  show ?thesis by (rule ext) (simp only: RecordChecksum_def e assms)
qed

lemma RecordChecksum_Insert:
  assumes "distinct (map GetPrimaryAssetId (Insert dc r n))"
  shows "RecordChecksum (Insert dc r n) k =
           (if k = GetPrimaryAssetId r then Some (Checksum r) else RecordChecksum dc k)"
proof -
  let ?f = "\<lambda>r. (GetPrimaryAssetId r, Checksum r)"
  let ?a = "map ?f (take n dc)" and ?b = "map ?f (drop n dc)"
  have d: "map ?f dc = ?a @ ?b" by (metis append_take_drop_id map_append)
  have i: "map ?f (Insert dc r n) = ?a @ (GetPrimaryAssetId r, Checksum r) # ?b" by (simp add: Insert_def)
  have "GetPrimaryAssetId r \<notin> fst ` set ?a" using assms by (auto simp: Insert_def image_iff)
  from map_of_split[OF this] show ?thesis unfolding RecordChecksum_def d i by simp
qed

lemma RecordChecksum_RemoveAt:
  assumes "distinct (map GetPrimaryAssetId dc)" "i < length dc"
  shows "RecordChecksum (RemoveAt dc i) k =
           (if k = GetPrimaryAssetId (dc ! i) then None else RecordChecksum dc k)"
proof -
  let ?f = "\<lambda>r. (GetPrimaryAssetId r, Checksum r)"
  let ?a = "map ?f (take i dc)" and ?b = "map ?f (drop (Suc i) dc)"
  let ?x = "GetPrimaryAssetId (dc ! i)"
  have dc: "dc = take i dc @ dc ! i # drop (Suc i) dc" using assms(2) by (rule id_take_nth_drop)
  have "distinct (map GetPrimaryAssetId (take i dc @ dc ! i # drop (Suc i) dc))"
    using assms(1) dc by simp
  then have n: "?x \<notin> fst ` set ?a" "?x \<notin> fst ` set ?b" by (auto simp: image_iff)
  have d: "map ?f dc = ?a @ (?x, Checksum (dc ! i)) # ?b"
    using dc by (metis (no_types, lifting) list.simps(9) map_append)
  have r: "map ?f (RemoveAt dc i) = ?a @ ?b" by (simp add: RemoveAt_def)
  show ?thesis unfolding RecordChecksum_def d r
    using map_of_split[OF n(1), of "Checksum (dc ! i)" ?b k] map_of_absent[OF n] by simp
qed

lemma RecordChecksum_list_update:
  assumes "distinct (map GetPrimaryAssetId dc)" "i < length dc"
    and "GetPrimaryAssetId r = GetPrimaryAssetId (dc ! i)"
  shows "RecordChecksum (dc[i := r]) k =
           (if k = GetPrimaryAssetId r then Some (Checksum r) else RecordChecksum dc k)"
proof -
  let ?f = "\<lambda>r. (GetPrimaryAssetId r, Checksum r)"
  let ?a = "map ?f (take i dc)" and ?b = "map ?f (drop (Suc i) dc)"
  let ?x = "GetPrimaryAssetId (dc ! i)"
  have dc: "dc = take i dc @ dc ! i # drop (Suc i) dc" using assms(2) by (rule id_take_nth_drop)
  have "distinct (map GetPrimaryAssetId (take i dc @ dc ! i # drop (Suc i) dc))"
    using assms(1) dc by simp
  then have n: "?x \<notin> fst ` set ?a" by (auto simp: image_iff)
  have d: "map ?f dc = ?a @ (?x, Checksum (dc ! i)) # ?b"
    using dc by (metis (no_types, lifting) list.simps(9) map_append)
  have u: "map ?f (dc[i := r]) = ?a @ (?x, Checksum r) # ?b"
    using assms(2,3) by (simp add: upd_conv_take_nth_drop)
  show ?thesis unfolding RecordChecksum_def d u
    using map_of_split[OF n, of "Checksum (dc ! i)" ?b k] map_of_split[OF n, of "Checksum r" ?b k] assms(3)
    by simp
qed

lemma Meta_types:
  "map Meta dc' = map Meta dc \<Longrightarrow> map GetPrimaryAssetType dc' = map GetPrimaryAssetType dc"
proof -
  assume "map Meta dc' = map Meta dc"
  then have i: "map GetPrimaryAssetId dc' = map GetPrimaryAssetId dc" by (rule Meta_ids)
  have e: "map GetPrimaryAssetType xs = map PrimaryAssetType (map GetPrimaryAssetId xs)" for xs
    by (simp add: GetPrimaryAssetType_def GetPrimaryAssetId_def)
  show ?thesis by (simp only: e i)
qed

lemma ArchetypeChecksum_exact:
  "ArchetypeChecksum gs t = None \<longleftrightarrow> t \<notin> GroupType ` set gs"
  by (simp add: ArchetypeChecksum_def FindArchetypeGroup_None_iff)

lemma AppendData_update_checksums:
  assumes "AppendData_update s InRecord = Some (b, s')"
  shows "\<exists>i r. DataMap s (GetPrimaryAssetId InRecord) = Some i \<and> i < length (DataContainer s)
          \<and> StateChecksum s' = 0
          \<and> GetPrimaryAssetId r = GetPrimaryAssetId InRecord \<and> Checksum r = 0
          \<and> RecordChecksum (DataContainer s') = RecordChecksum ((DataContainer s)[i := r])
          \<and> (\<forall>t. ArchetypeChecksum (Archetypes s') t =
                 (if t = GetPrimaryAssetType InRecord then Some 0
                  else ArchetypeChecksum (Archetypes s) t))"
proof -
  let ?dc = "DataContainer s"
  from assms obtain i where i: "DataMap s (GetPrimaryAssetId InRecord) = Some i" "i < length ?dc"
    by (auto simp: AppendData_update_def split: option.splits if_splits)
  let ?E0 = "(?dc ! i)\<lparr>SharedData := SharedData InRecord, AssetPath := AssetPath InRecord\<rparr>"
  let ?s0 = "s\<lparr>DataContainer := ?dc[i := ?E0]\<rparr>"
  from assms i obtain s1 s2 k where
    s1: "RefreshCustomData DefaultPayloadSlot (DefaultPayload InRecord) i ?s0 = Some s1"
    and s2: "RefreshCustomData CustomDataSlot (CustomData InRecord) i s1 = Some s2"
    and k: "FindArchetypeGroup (Archetypes s2) (GetPrimaryAssetType (DataContainer s2 ! i)) = Some k"
    and r: "s' = s2\<lparr>DataContainer := (DataContainer s2)[i := InvalidateChecksum (DataContainer s2 ! i)],
                 Archetypes := InvalidateGroup (Archetypes s2) k, StateChecksum := 0\<rparr>"
    by (auto simp: AppendData_update_def split: option.splits if_splits)
  have il0: "i < length (DataContainer ?s0)" using i by simp
  note m1 = RefreshCustomData_Meta[OF s1 il0]
  then have "length (DataContainer s1) = length (DataContainer ?s0)" by (metis length_map)
  then have il1: "i < length (DataContainer s1)" using i by simp
  note m2 = RefreshCustomData_Meta[OF s2 il1]
  have meta: "map Meta (DataContainer s2) = map Meta (?dc[i := ?E0])" using m1 m2 by simp
  have ar: "Archetypes s2 = Archetypes s" using m1 m2 by (simp add: same_secondary_def)
  have l2: "length (DataContainer s2) = length ?dc" using meta by (metis length_map length_list_update)
  have mi: "Meta (DataContainer s2 ! i) = Meta ?E0" using Meta_nth[OF meta, of i] i by simp
  let ?r = "InvalidateChecksum ?E0"
  have ty: "GetPrimaryAssetType (DataContainer s2 ! i) = GetPrimaryAssetType InRecord"
    using mi by (simp add: Meta_def GetPrimaryAssetType_def GetPrimaryAssetId_def)
  have "map Meta (DataContainer s') = map Meta (?dc[i := ?r])"
  proof (rule nth_equalityI)
    show "length (map Meta (DataContainer s')) = length (map Meta (?dc[i := ?r]))" using r l2 by simp
  next
    fix j assume "j < length (map Meta (DataContainer s'))"
    then have j: "j < length ?dc" using r l2 by simp
    have "Meta (DataContainer s2 ! j) = Meta (?dc[i := ?E0] ! j)" using Meta_nth[OF meta, of j] j by simp
    then show "map Meta (DataContainer s') ! j = map Meta (?dc[i := ?r]) ! j"
      using j r l2 by (cases "j = i") (auto simp: Meta_def InvalidateChecksum_def)
  qed
  then have rc: "RecordChecksum (DataContainer s') = RecordChecksum (?dc[i := ?r])"
    by (rule RecordChecksum_Meta)
  have ac: "ArchetypeChecksum (Archetypes s') t =
                 (if t = GetPrimaryAssetType InRecord then Some 0
                  else ArchetypeChecksum (Archetypes s) t)" for t
    using ArchetypeChecksum_InvalidateGroup[of "Archetypes s" "GetPrimaryAssetType InRecord" k t] k ty ar r
    by simp
  have "GetPrimaryAssetId ?r = GetPrimaryAssetId InRecord" "Checksum ?r = 0"
    by (simp_all add: InvalidateChecksum_def GetPrimaryAssetId_def)
  then show ?thesis using i r rc ac by (intro exI[of _ i] exI[of _ ?r]) simp
qed

lemma RemoveData_slot_Meta:
  "RemoveData_slot t i s = Some s' \<Longrightarrow>
   map Meta (DataContainer s') = map Meta (DataContainer s) \<and> same_secondary s s'"
  by (auto simp: RemoveData_slot_def same_secondary_def split: if_splits dest: RemoveCustomData_Meta)

lemma set_RemoveAt_types:
  assumes "i < length dc"
  shows "f ` set dc = insert (f (dc ! i)) (f ` set (RemoveAt dc i))"
proof -
  have "dc = take i dc @ dc ! i # drop (Suc i) dc" using assms by (rule id_take_nth_drop)
  then have "set dc = insert (dc ! i) (set (take i dc) \<union> set (drop (Suc i) dc))"
    by (metis Un_insert_right list.simps(15) set_append)
  then show ?thesis by (simp add: RemoveAt_def image_Un)
qed

lemma set_Insert: "set (Insert dc r n) = insert r (set dc)"
proof -
  have "set dc = set (take n dc) \<union> set (drop n dc)" by (metis append_take_drop_id set_append)
  then show ?thesis by (auto simp: Insert_def)
qed

text \<open>
  C5. On a well-formed state, a successful \<open>AppendData\<close> (updating or inserting) resets the
  top-level checksum, the checksum of the record with the incoming identifier and the
  cached checksum of the group of its type, and a \<open>RemoveData\<close> that removes a record
  resets the top-level checksum and the cached checksum of the group of its type (if the
  group survives); the cached checksum of every group of another type and the checksum of
  every record with another identifier are what they were before.
\<close>

theorem checksum_invalidation_local:
  assumes wf: "wf_state s"
  shows "(AppendData s InRecord = Some (b, s') \<longrightarrow>
            StateChecksum s' = 0
          \<and> RecordChecksum (DataContainer s') (GetPrimaryAssetId InRecord) = Some 0
          \<and> ArchetypeChecksum (Archetypes s') (GetPrimaryAssetType InRecord) = Some 0
          \<and> (\<forall>t. t \<noteq> GetPrimaryAssetType InRecord \<longrightarrow>
                ArchetypeChecksum (Archetypes s') t = ArchetypeChecksum (Archetypes s) t)
          \<and> (\<forall>k. k \<noteq> GetPrimaryAssetId InRecord \<longrightarrow>
                RecordChecksum (DataContainer s') k = RecordChecksum (DataContainer s) k))
       \<and> (RemoveData s k0 = Some (True, s') \<longrightarrow>
            StateChecksum s' = 0
          \<and> RecordChecksum (DataContainer s') k0 = None
          \<and> ArchetypeChecksum (Archetypes s') (PrimaryAssetType k0) \<in> {None, Some 0}
          \<and> (\<forall>t. t \<noteq> PrimaryAssetType k0 \<longrightarrow>
                ArchetypeChecksum (Archetypes s') t = ArchetypeChecksum (Archetypes s) t)
          \<and> (\<forall>k. k \<noteq> k0 \<longrightarrow>
                RecordChecksum (DataContainer s') k = RecordChecksum (DataContainer s) k))"
proof (intro conjI impI)
  let ?dc = "DataContainer s"
  have di: "distinct (map GetPrimaryAssetId ?dc)" using wf by (simp add: wf_state_def)
  have ge: "GroupType ` set (Archetypes s) = GetPrimaryAssetType ` set ?dc"
    using wf by (simp add: wf_state_def groups_exact_def)
  {
    assume a: "AppendData s InRecord = Some (b, s')"
    let ?id = "GetPrimaryAssetId InRecord" and ?ty = "GetPrimaryAssetType InRecord"
    have "StateChecksum s' = 0
        \<and> RecordChecksum (DataContainer s') ?id = Some 0
        \<and> (\<forall>t. ArchetypeChecksum (Archetypes s') t =
              (if t = ?ty then Some 0 else ArchetypeChecksum (Archetypes s) t))
        \<and> (\<forall>k. k \<noteq> ?id \<longrightarrow> RecordChecksum (DataContainer s') k = RecordChecksum ?dc k)"
    proof (cases "ContainsRecord s ?id")
      case True
      with a have "AppendData_update s InRecord = Some (b, s')" by (simp add: AppendData_def)
      from AppendData_update_checksums[OF this] obtain i r where
        i: "DataMap s ?id = Some i" "i < length ?dc" and sc: "StateChecksum s' = 0"
        and r: "GetPrimaryAssetId r = ?id" "Checksum r = 0"
        and rc: "RecordChecksum (DataContainer s') = RecordChecksum (?dc[i := r])"
        and ac: "\<forall>t. ArchetypeChecksum (Archetypes s') t =
              (if t = ?ty then Some 0 else ArchetypeChecksum (Archetypes s) t)" by blast
      have "GetPrimaryAssetId (?dc ! i) = ?id" using wf i by (auto simp: wf_state_def maps_coherent_def)
      then have "GetPrimaryAssetId r = GetPrimaryAssetId (?dc ! i)" using r by simp
      from RecordChecksum_list_update[OF di i(2) this] r rc sc ac show ?thesis by simp
    next
      case False
      let ?n = "LowerBound ?dc InRecord"
      let ?gs = "(case FindArchetypeGroup (Archetypes s) ?ty of
                      Some k \<Rightarrow> InvalidateGroup (Archetypes s) k
                    | None \<Rightarrow> Archetypes s)"
      obtain x1 c1 where x1: "AppendCustomData (DefaultPayload InRecord) (CustomDataContainer s) = (x1, c1)"
        by (cases "AppendCustomData (DefaultPayload InRecord) (CustomDataContainer s)")
      obtain x2 c2 where x2: "AppendCustomData (CustomData InRecord) c1 = (x2, c2)"
        by (cases "AppendCustomData (CustomData InRecord) c1")
      define r where "r = (InvalidateChecksum InRecord)\<lparr>DefaultPayloadIndex := x1, CustomDataIndex := x2\<rparr>"
      have r: "GetPrimaryAssetId r = ?id" "Checksum r = 0"
        by (simp_all add: r_def InvalidateChecksum_def GetPrimaryAssetId_def)
      have f: "FixupDependencies True (s\<lparr>DataContainer := Insert ?dc r ?n, CustomDataContainer := c2,
                       Archetypes := ?gs\<rparr>) = Some s'"
        using False a x1 x2 by (auto simp: AppendData_def AppendData_insert_def Let_def r_def)
      let ?s0 = "s\<lparr>DataContainer := Insert ?dc r ?n, CustomDataContainer := c2, Archetypes := ?gs\<rparr>"
      note fx = FixupDependencies_checksums[OF f]
      have d0: "distinct (map GetPrimaryAssetId (Insert ?dc r ?n))" using fx by simp
      have rc: "RecordChecksum (DataContainer s') k = (if k = ?id then Some 0 else RecordChecksum ?dc k)" for k
        using fx RecordChecksum_Insert[OF d0, of k] r by simp
      have rty: "GetPrimaryAssetType r = ?ty" using r(1) by (simp add: GetPrimaryAssetType_def GetPrimaryAssetId_def)
      have types: "GetPrimaryAssetType ` set (DataContainer ?s0) = insert ?ty (GetPrimaryAssetType ` set ?dc)"
        using rty by (simp add: set_Insert)
      have cached: "ArchetypeChecksum ?gs t =
          (if t = ?ty \<and> t \<in> GroupType ` set (Archetypes s) then Some 0 else ArchetypeChecksum (Archetypes s) t)" for t
      proof (cases "FindArchetypeGroup (Archetypes s) ?ty")
        case None
        then show ?thesis using FindArchetypeGroup_None_iff[of "Archetypes s" ?ty] by auto
      next
        case (Some k)
        then have "?ty \<in> GroupType ` set (Archetypes s)"
          using FindArchetypeGroup_None_iff[of "Archetypes s" ?ty] by auto
        then show ?thesis using Some ArchetypeChecksum_InvalidateGroup[OF Some, of t] by simp
      qed
      have ac: "ArchetypeChecksum (Archetypes s') t =
              (if t = ?ty then Some 0 else ArchetypeChecksum (Archetypes s) t)" for t
      proof (cases "t = ?ty")
        case True
        then have "ArchetypeChecksum ?gs t = Some 0 \<or> ArchetypeChecksum ?gs t = None"
          using cached[of t] ArchetypeChecksum_exact[of "Archetypes s" t] by auto
        moreover have "ArchetypeChecksum (Archetypes s') t =
           (case ArchetypeChecksum ?gs t of Some c \<Rightarrow> Some c | None \<Rightarrow> Some 0)"
          using fx types True by simp
        ultimately show ?thesis using True by auto
      next
        case False
        then have c: "ArchetypeChecksum ?gs t = ArchetypeChecksum (Archetypes s) t" using cached[of t] by simp
        show ?thesis
        proof (cases "t \<in> GetPrimaryAssetType ` set ?dc")
          case True
          then obtain c' where "ArchetypeChecksum (Archetypes s) t = Some c'"
            using ArchetypeChecksum_exact[of "Archetypes s" t] ge by auto
          moreover have "ArchetypeChecksum (Archetypes s') t =
           (case ArchetypeChecksum ?gs t of Some c \<Rightarrow> Some c | None \<Rightarrow> Some 0)"
            using fx types True by simp
          ultimately show ?thesis using c False by simp
        next
          case nt: False
          then have "ArchetypeChecksum (Archetypes s) t = None"
            using ArchetypeChecksum_exact[of "Archetypes s" t] ge by auto
          moreover have "ArchetypeChecksum (Archetypes s') t = None"
            using fx types nt False by simp
          ultimately show ?thesis using False by simp
        qed
      qed
      show ?thesis using fx rc ac by simp
    qed
    then show "StateChecksum s' = 0"
      "RecordChecksum (DataContainer s') ?id = Some 0"
      "ArchetypeChecksum (Archetypes s') ?ty = Some 0"
      "\<forall>t. t \<noteq> ?ty \<longrightarrow> ArchetypeChecksum (Archetypes s') t = ArchetypeChecksum (Archetypes s) t"
      "\<forall>k. k \<noteq> ?id \<longrightarrow> RecordChecksum (DataContainer s') k = RecordChecksum ?dc k"
      by simp_all
  }
  {
    assume a: "RemoveData s k0 = Some (True, s')"
    let ?ty = "PrimaryAssetType k0"
    from a obtain i where i: "DataMap s k0 = Some i" "i < length ?dc"
      by (auto simp: RemoveData_def split: option.splits if_splits)
    have iid: "GetPrimaryAssetId (?dc ! i) = k0" using wf i by (auto simp: wf_state_def maps_coherent_def)
    from a i obtain s1 s2 k Idx where
      s1: "RemoveData_slot DefaultPayloadSlot i s = Some s1"
      and s2: "RemoveData_slot CustomDataSlot i s1 = Some s2"
      and k: "FindArchetypeGroup (Archetypes s2) (GetPrimaryAssetType (DataContainer s2 ! i)) = Some k"
      and ix: "DataMap s2 (GetPrimaryAssetId (DataContainer s2 ! i)) = Some Idx"
      and f: "FixupDependencies True (s2\<lparr>DataContainer := RemoveAt (DataContainer s2) Idx,
                                           Archetypes := InvalidateGroup (Archetypes s2) k\<rparr>) = Some s'"
      by (auto simp: RemoveData_def split: option.splits if_splits)
    note m1 = RemoveData_slot_Meta[OF s1] and m2 = RemoveData_slot_Meta[OF s2]
    have meta: "map Meta (DataContainer s2) = map Meta ?dc" using m1 m2 by simp
    have ar: "Archetypes s2 = Archetypes s" and dm: "DataMap s2 = DataMap s"
      using m1 m2 by (simp_all add: same_secondary_def)
    let ?dc2 = "DataContainer s2"
    have ids: "map GetPrimaryAssetId ?dc2 = map GetPrimaryAssetId ?dc" using meta by (rule Meta_ids)
    have l2: "length ?dc2 = length ?dc" using meta by (metis length_map)
    have iid2: "GetPrimaryAssetId (?dc2 ! i) = k0" using ids i iid l2 by (metis nth_map)
    have ty2: "GetPrimaryAssetType (?dc2 ! i) = ?ty" using iid2 by (simp add: GetPrimaryAssetType_def)
    have Idx: "Idx = i" using ix iid2 dm i by simp
    have di2: "distinct (map GetPrimaryAssetId ?dc2)" using di ids by simp
    note fx = FixupDependencies_checksums[OF f]
    have rc2: "RecordChecksum ?dc2 = RecordChecksum ?dc" using meta by (rule RecordChecksum_Meta)
    have rc: "RecordChecksum (DataContainer s') k' = (if k' = k0 then None else RecordChecksum ?dc k')" for k'
      using fx RecordChecksum_RemoveAt[OF di2, of i k'] i l2 iid2 rc2 Idx by simp
    have tys: "GetPrimaryAssetType ` set ?dc = insert ?ty (GetPrimaryAssetType ` set (RemoveAt ?dc2 i))"
    proof -
      have "GetPrimaryAssetType ` set ?dc = GetPrimaryAssetType ` set ?dc2"
        using Meta_types[OF meta] by (metis set_map)
      then show ?thesis using set_RemoveAt_types[of i ?dc2 GetPrimaryAssetType] i l2 ty2 by simp
    qed
    have k': "FindArchetypeGroup (Archetypes s) ?ty = Some k" using k ty2 ar by simp
    have cached: "ArchetypeChecksum (InvalidateGroup (Archetypes s) k) t =
        (if t = ?ty then Some 0 else ArchetypeChecksum (Archetypes s) t)" for t
      using ArchetypeChecksum_InvalidateGroup[OF k', of t] .
    have post: "ArchetypeChecksum (Archetypes s') t =
          (if t \<in> GetPrimaryAssetType ` set (RemoveAt ?dc2 i)
           then (case ArchetypeChecksum (InvalidateGroup (Archetypes s) k) t of Some c \<Rightarrow> Some c | None \<Rightarrow> Some 0)
           else None)" for t
      using fx Idx ar by simp
    have a1: "ArchetypeChecksum (Archetypes s') ?ty \<in> {None, Some 0}"
      using post[of ?ty] cached[of ?ty] by simp
    have a2: "ArchetypeChecksum (Archetypes s') t = ArchetypeChecksum (Archetypes s) t" if "t \<noteq> ?ty" for t
    proof (cases "t \<in> GetPrimaryAssetType ` set ?dc")
      case True
      then obtain c' where "ArchetypeChecksum (Archetypes s) t = Some c'"
        using ArchetypeChecksum_exact[of "Archetypes s" t] ge by auto
      moreover have "t \<in> GetPrimaryAssetType ` set (RemoveAt ?dc2 i)" using True tys that by auto
      ultimately show ?thesis using post[of t] cached[of t] that by simp
    next
      case False
      then have "ArchetypeChecksum (Archetypes s) t = None"
        using ArchetypeChecksum_exact[of "Archetypes s" t] ge by auto
      moreover have "t \<notin> GetPrimaryAssetType ` set (RemoveAt ?dc2 i)" using False tys by auto
      ultimately show ?thesis using post[of t] by simp
    qed
    show "StateChecksum s' = 0" using fx by simp
    show "RecordChecksum (DataContainer s') k0 = None" using rc by simp
    show "ArchetypeChecksum (Archetypes s') ?ty \<in> {None, Some 0}" using a1 .
    show "\<forall>t. t \<noteq> ?ty \<longrightarrow> ArchetypeChecksum (Archetypes s') t = ArchetypeChecksum (Archetypes s) t"
      using a2 by simp
    show "\<forall>k. k \<noteq> k0 \<longrightarrow> RecordChecksum (DataContainer s') k = RecordChecksum ?dc k" using rc by simp
  }
qed

theorem checksum_invalidation_local_witness:
  "wf_state Stocked
   \<and> map_option fst (AppendData Stocked (Axe (Durability 120 3))) = Some False
   \<and> StateChecksum (Restocked (Axe (Durability 120 3))) = 0
   \<and> RecordChecksum (DataContainer (Restocked (Axe (Durability 120 3)))) Axe_id = Some 0
   \<and> ArchetypeChecksum (Archetypes (Restocked (Axe (Durability 120 3)))) ''Weapon'' = Some 0
   \<and> ArchetypeChecksum (Archetypes (Restocked (Axe (Durability 120 3)))) ''Potion'' = Some 51
   \<and> RecordChecksum (DataContainer (Restocked (Axe (Durability 120 3)))) Bow_id = Some 43
   \<and> RecordChecksum (DataContainer (Restocked (Axe (Durability 120 3)))) Elixir_id = Some 41
   \<and> map_option fst (AppendData Stocked Club) = Some True
   \<and> StateChecksum (Restocked Club) = 0
   \<and> RecordChecksum (DataContainer (Restocked Club)) (GetPrimaryAssetId Club) = Some 0
   \<and> ArchetypeChecksum (Archetypes (Restocked Club)) ''Weapon'' = Some 0
   \<and> ArchetypeChecksum (Archetypes (Restocked Club)) ''Potion'' = Some 51
   \<and> RecordChecksum (DataContainer (Restocked Club)) Axe_id = Some 42
   \<and> RecordChecksum (DataContainer (Restocked Club)) Elixir_id = Some 41
   \<and> map_option fst (RemoveData Stocked Bow_id) = Some True
   \<and> StateChecksum (Destocked Bow_id) = 0
   \<and> RecordChecksum (DataContainer (Destocked Bow_id)) Bow_id = None
   \<and> ArchetypeChecksum (Archetypes (Destocked Bow_id)) ''Potion'' = Some 51
   \<and> RecordChecksum (DataContainer (Destocked Bow_id)) Axe_id = Some 42
   \<and> RecordChecksum (DataContainer (Destocked Bow_id)) Elixir_id = Some 41"
proof -
  from Stocked_update obtain s1 where s1: "AppendData Stocked (Axe (Durability 120 3)) = Some (False, s1)"
    by blast
  from Stocked_insert obtain s2 where s2: "AppendData Stocked Club = Some (True, s2)" by blast
  from Stocked_remove obtain s3 where s3: "RemoveData Stocked Bow_id = Some (True, s3)" by blast
  have before: "ArchetypeChecksum (Archetypes Stocked) ''Potion'' = Some 51"
    "RecordChecksum (DataContainer Stocked) Axe_id = Some 42"
    "RecordChecksum (DataContainer Stocked) Bow_id = Some 43"
    "RecordChecksum (DataContainer Stocked) Elixir_id = Some 41"
    by (simp_all add: ArchetypeChecksum_def FindArchetypeGroup_def RecordChecksum_def ex_defs)
  have ne: "Bow_id \<noteq> Axe_id" "Elixir_id \<noteq> Axe_id" "Elixir_id \<noteq> Bow_id" "Axe_id \<noteq> Bow_id"
    "Axe_id \<noteq> GetPrimaryAssetId Club" "Elixir_id \<noteq> GetPrimaryAssetId Club"
    "GetPrimaryAssetId (Axe (Durability 120 3)) = Axe_id"
    "GetPrimaryAssetType (Axe (Durability 120 3)) = ''Weapon''"
    "GetPrimaryAssetType Club = ''Weapon''" "PrimaryAssetType Bow_id = ''Weapon''"
    by (simp_all add: ex_defs)
  have a: "StateChecksum s1 = 0 \<and> RecordChecksum (DataContainer s1) Axe_id = Some 0
      \<and> ArchetypeChecksum (Archetypes s1) ''Weapon'' = Some 0
      \<and> ArchetypeChecksum (Archetypes s1) ''Potion'' = Some 51
      \<and> RecordChecksum (DataContainer s1) Bow_id = Some 43
      \<and> RecordChecksum (DataContainer s1) Elixir_id = Some 41"
    using checksum_invalidation_local[OF Stocked_wf, of "Axe (Durability 120 3)" False s1] s1 before ne by simp
  have b: "StateChecksum s2 = 0 \<and> RecordChecksum (DataContainer s2) (GetPrimaryAssetId Club) = Some 0
      \<and> ArchetypeChecksum (Archetypes s2) ''Weapon'' = Some 0
      \<and> ArchetypeChecksum (Archetypes s2) ''Potion'' = Some 51
      \<and> RecordChecksum (DataContainer s2) Axe_id = Some 42
      \<and> RecordChecksum (DataContainer s2) Elixir_id = Some 41"
    using checksum_invalidation_local[OF Stocked_wf, of Club True s2] s2 before ne by simp
  have c: "StateChecksum s3 = 0 \<and> RecordChecksum (DataContainer s3) Bow_id = None
      \<and> ArchetypeChecksum (Archetypes s3) ''Potion'' = Some 51
      \<and> RecordChecksum (DataContainer s3) Axe_id = Some 42
      \<and> RecordChecksum (DataContainer s3) Elixir_id = Some 41"
    using checksum_invalidation_local[OF Stocked_wf, of _ _ s3 Bow_id] s3 before ne by simp
  show ?thesis using Stocked_wf a b c s1 s2 s3 by (simp add: Restocked_def Destocked_def)
qed

section \<open>DiffRecords\<close>

text \<open>
  C9. \<open>DiffRecords\<close> on a state and itself empties the state, but the difference of a
  state with one more record and the state itself is not always that record: on the
  registry \<open>Rack\<close>, where the axe has the last blob as default payload (index 2) and the
  first as custom data (index 0), \<open>RemoveData\<close> of the axe aborts. \<open>RemoveCustomData 2\<close>
  removes the last blob and shifts nothing, so the axe keeps its index 2; \<open>RemoveCustomData 0\<close>
  then shifts every index above 0, that of the axe included, and subscripts the container,
  of one element by now, at 1. \<open>DiffRecords\<close> removes the axe first and aborts with it.
\<close>

theorem DiffRecords_aborts_on_stale_payload_index:
  "map_option (\<lambda>s. map (\<lambda>r. (GetPrimaryAssetName r, DefaultPayloadIndex r, CustomDataIndex r)) (DataContainer s)) Rack
     = Some [(''Axe'', 2, 0), (''Bow'', 1, - 1)]
   \<and> map_option (\<lambda>s. length (CustomDataContainer s)) Rack = Some 3
   \<and> map_option (\<lambda>s. map GetPrimaryAssetName (DataContainer s)) Rack_and_Club
     = Some [''Axe'', ''Bow'', ''Club'']
   \<and> map_option fst (RemoveData (the Rack) Axe_id) = None
   \<and> map_option DataContainer (DiffRecords (the Rack_and_Club) (the Rack)) = None
   \<and> map_option DataContainer (DiffRecords (the Rack) (the Rack)) = Some []"
  by code_simp

text \<open>Where no removed record has such an index, the added record is what is left.\<close>

lemma DiffRecords_leaves_added_record:
  "map_option (\<lambda>s. map GetPrimaryAssetId (DataContainer s)) (DiffRecords (Restocked Club) Stocked)
     = Some [GetPrimaryAssetId Club]"
  by code_simp

section \<open>LoadState and a corrupt body\<close>







section \<open>Defaults propagation preserves customization\<close>





section \<open>Saving and loading\<close>

lemma IsSorted_map:
  assumes "\<And>x y. record_less (f x) (f y) = record_less x y"
  shows "IsSorted (map f rs) = IsSorted rs"
  by (induction rs rule: IsSorted.induct) (simp_all add: assms)

lemma Fixed_UProperties:
  "Fixed C j (UProperties (UProperties r)) = InvalidateChecksum (Fixed C j r)"
  by (simp add: Fixed_def UProperties_def InvalidateChecksum_def)

lemma FixupDependencies_loop_UProperties:
  "FixupDependencies_loop C i rs (vis, dm, rm, gs) = Some (vis', dm', rm', gs') \<Longrightarrow>
   FixupDependencies_loop C i (map (\<lambda>r. UProperties (UProperties r)) rs)
     (map InvalidateChecksum vis, dm, rm, gs) = Some (map InvalidateChecksum vis', dm', rm', gs')"
proof (induction rs arbitrary: i vis dm rm gs)
  case Nil
  then show ?case by simp
next
  case (Cons r rs)
  let ?f = "\<lambda>r. UProperties (UProperties r)"
  from Cons.prems have nd: "dm (GetPrimaryAssetId r) = None" by (auto split: if_splits)
  with Cons.prems have "FixupDependencies_loop C (Suc i) rs
     (vis @ [Fixed C i r], dm(GetPrimaryAssetId r \<mapsto> i), rm(i + 1 \<mapsto> i),
      RefreshArchetypes gs (GetPrimaryAssetType r) i) = Some (vis', dm', rm', gs')"
    by (simp add: Fixed_def)
  from Cons.IH[OF this]
  have ih: "FixupDependencies_loop C (Suc i) (map ?f rs)
     (map InvalidateChecksum (vis @ [Fixed C i r]), dm(GetPrimaryAssetId r \<mapsto> i), rm(i + 1 \<mapsto> i),
      RefreshArchetypes gs (GetPrimaryAssetType r) i) = Some (map InvalidateChecksum vis', dm', rm', gs')" .
  have k: "GetPrimaryAssetId (?f r) = GetPrimaryAssetId r"
    by (simp add: UProperties_def GetPrimaryAssetId_def)
  have a: "(?f r)\<lparr>RepIndex := i + 1,
              DefaultPayload := RefreshViewData C (DefaultPayloadIndex (?f r)),
              CustomData := RefreshViewData C (CustomDataIndex (?f r))\<rparr> = InvalidateChecksum (Fixed C i r)"
    using Fixed_UProperties[of C i r] by (simp add: Fixed_def)
  have eq: "FixupDependencies_loop C i (map ?f (r # rs)) (map InvalidateChecksum vis, dm, rm, gs) =
     FixupDependencies_loop C (Suc i) (map ?f rs)
       (map InvalidateChecksum (vis @ [Fixed C i r]), dm(GetPrimaryAssetId r \<mapsto> i), rm(i + 1 \<mapsto> i),
        RefreshArchetypes gs (GetPrimaryAssetType r) i)"
    using nd k a by (simp add: GetPrimaryAssetType_def)
  show ?case unfolding eq using ih .
qed

lemma GetChecksum_reads:
  "fst (GetChecksum E s) =
     (if StateChecksum s = 0 then fst (GetChecksum_groups E (Archetypes s) (DataContainer s) 0)
      else StateChecksum s)"
  by (simp add: GetChecksum_def split: prod.splits)

lemma round_trip:
  assumes fx: "IsFixedUp S"
    and save: "SaveItem E bIsCooking (Persisted S) = Some (BufferArchive, CustomVersions)"
    and load: "LoadItem E bIsCooking CustomVersions BufferArchive = (Persisted S, True, False)"
    and hdr: "Header_Load E
                (Header_Save E (SavedHeader E DataSourceClassName bIsCooking BufferArchive CustomVersions)
                 @ BufferArchive)
              = Some (SavedHeader E DataSourceClassName bIsCooking BufferArchive CustomVersions, BufferArchive)"
  shows "\<exists>Ar S'. SaveState E DataSourceClassName S bIsCooking = (True, Ar)
     \<and> LoadState E DataSourceClassName s Ar bIsCooking = Some (True, S', None)
     \<and> DataContainer S' = map InvalidateChecksum (DataContainer S)
     \<and> CustomDataContainer S' = CustomDataContainer S
     \<and> fst (GetChecksum E S') = fst (GetChecksum E (InvalidateChecksums S))"
proof -
  let ?H = "SavedHeader E DataSourceClassName bIsCooking BufferArchive CustomVersions"
  let ?Ar = "Header_Save E ?H @ BufferArchive"
  let ?dc = "DataContainer S" and ?C = "CustomDataContainer S"
  have sv: "SaveState E DataSourceClassName S bIsCooking = (True, ?Ar)"
    using save by (simp add: SaveState_def SavedHeader_def)
  from fx obtain S0 where s0: "FixupDependencies False S = Some S0"
    and dc0: "DataContainer S0 = ?dc"
    and ar0: "Archetypes S0 = map (\<lambda>g. g\<lparr>GroupChecksum := 0\<rparr>) (Archetypes S)"
    and blobs: "\<not> list_ex (\<lambda>v. v = None) ?C"
    by (auto simp: IsFixedUp_def split: option.splits)
  from s0 obtain vis dm rm gs where
    srt: "IsSorted ?dc"
    and l: "FixupDependencies_loop ?C 0 ?dc ([], Map.empty, Map.empty, []) = Some (vis, dm, rm, gs)"
    and S0: "DataContainer S0 = vis" "Archetypes S0 = gs"
    by (auto simp: FixupDependencies_def split: if_splits option.splits)
  let ?f = "\<lambda>r. UProperties (UProperties r)"
  have l': "FixupDependencies_loop ?C 0 (map ?f ?dc) ([], Map.empty, Map.empty, [])
      = Some (map InvalidateChecksum vis, dm, rm, gs)"
    using FixupDependencies_loop_UProperties[OF l] by simp
  have srt': "IsSorted (map ?f ?dc)"
    using srt IsSorted_map[of ?f ?dc]
    by (simp add: record_less_def UProperties_def GetPrimaryAssetType_def GetPrimaryAssetName_def
        GetPrimaryAssetId_def)
  let ?s1 = "s\<lparr>DataContainer := map UProperties (PersistedRecords (Persisted S)),
                 CustomDataContainer := PersistedCustomData (Persisted S)\<rparr>"
  let ?S' = "?s1\<lparr>DataContainer := map InvalidateChecksum vis, Archetypes := gs, DataMap := dm,
                   ReplicationMap := rm,
                   RepIndexEncodingBitsNum := CeilLogTwo (length (DataContainer ?s1) + 1),
                   StateChecksum := 0\<rparr>"
  have fx1: "FixupDependencies False ?s1 = Some ?S'"
    using l' srt' by (simp add: FixupDependencies_def Persisted_def comp_def)
  have ld: "LoadState E DataSourceClassName s ?Ar bIsCooking = Some (True, ?S', None)"
    using hdr load blobs fx1
    by (simp add: LoadState_def SavedHeader_def Let_def Persisted_def)
  have dc': "DataContainer ?S' = map InvalidateChecksum ?dc" using S0 dc0 by simp
  have cd': "CustomDataContainer ?S' = ?C" by (simp add: Persisted_def)
  have ck: "fst (GetChecksum E ?S') = fst (GetChecksum E (InvalidateChecksums S))"
    using S0 dc0 ar0 by (simp add: GetChecksum_reads InvalidateChecksums_def)
  show ?thesis using sv ld dc' cd' ck by blast
qed

lemma Record_GetChecksum_coherent:
  assumes "RecordCoherent E r"
  shows "fst (Record_GetChecksum E r) = RecordDigest E r
       \<and> RecordCoherent E (snd (Record_GetChecksum E r))
       \<and> InvalidateChecksum (snd (Record_GetChecksum E r)) = InvalidateChecksum r"
proof (cases "Checksum r = 0")
  case True
  then have r: "InvalidateChecksum r = r" by (simp add: InvalidateChecksum_def)
  have i: "InvalidateChecksum (r\<lparr>Checksum := c\<rparr>) = r" for c
    using True by (simp add: InvalidateChecksum_def)
  show ?thesis using True
    by (simp add: RecordDigest_def RecordCoherent_def r i Record_GetChecksum_def Let_def)
next
  case False
  then show ?thesis using assms by (simp add: RecordCoherent_def Record_GetChecksum_def)
qed

lemma GetChecksum_records_coherent:
  assumes "list_all (RecordCoherent E) xs"
  shows "fst (GetChecksum_records E xs c) = fst (GetChecksum_records E (map InvalidateChecksum xs) c)
       \<and> list_all (RecordCoherent E) (snd (GetChecksum_records E xs c))
       \<and> map InvalidateChecksum (snd (GetChecksum_records E xs c)) = map InvalidateChecksum xs"
  using assms
proof (induction xs arbitrary: c)
  case Nil
  then show ?case by simp
next
  case (Cons r xs)
  then have rc: "RecordCoherent E r" and xc: "list_all (RecordCoherent E) xs" by simp_all
  have ic: "RecordCoherent E (InvalidateChecksum r)"
    by (simp add: RecordCoherent_def InvalidateChecksum_def)
  note a = Record_GetChecksum_coherent[OF rc]
  note b = Record_GetChecksum_coherent[OF ic]
  have d: "RecordDigest E (InvalidateChecksum r) = RecordDigest E r"
    by (simp add: RecordDigest_def InvalidateChecksum_def)
  have v: "fst (Record_GetChecksum E (InvalidateChecksum r)) = fst (Record_GetChecksum E r)"
    using a b d by simp
  note ih = Cons.IH[OF xc, of "TypeCrc32 E (fst (Record_GetChecksum E r)) c"]
  show ?case using a ih v by (simp add: split_beta)
qed

lemma GroupDigest_cong:
  "map InvalidateChecksum rs' = map InvalidateChecksum rs \<Longrightarrow> GroupDigest E rs' g = GroupDigest E rs g"
proof -
  assume a: "map InvalidateChecksum rs' = map InvalidateChecksum rs"
  have "map InvalidateChecksum (take n (drop m xs)) = take n (drop m (map InvalidateChecksum xs))" for n m xs
    by (simp add: take_map drop_map)
  then show ?thesis using a by (simp add: GroupDigest_def)
qed

lemma slice_replace:
  assumes "map f ys = map f (take n (drop m xs))"
  shows "map f (take m xs @ ys @ drop (m + n) xs) = map f xs"
proof -
  have "xs = take m xs @ take n (drop m xs) @ drop (m + n) xs"
    by (metis add.commute append_take_drop_id drop_drop)
  then have "map f xs = map f (take m xs) @ map f (take n (drop m xs)) @ map f (drop (m + n) xs)"
    by (metis map_append)
  then show ?thesis using assms by simp
qed

lemma list_all_slice:
  "list_all P xs \<Longrightarrow> list_all P (take n (drop m xs)) \<and> list_all P (take m xs) \<and> list_all P (drop k xs)"
  by (auto simp: list_all_iff dest: in_set_takeD in_set_dropD)

lemma GetChecksum_groups_coherent:
  assumes "map InvalidateChecksum rsA = map InvalidateChecksum rsB"
    and "list_all (RecordCoherent E) rsA" and "list_all (RecordCoherent E) rsB"
    and "list_all (\<lambda>g. GroupChecksum g = 0 \<or> GroupChecksum g = GroupDigest E rsA g) gs"
  shows "fst (GetChecksum_groups E gs rsA c)
       = fst (GetChecksum_groups E (map (\<lambda>g. g\<lparr>GroupChecksum := 0\<rparr>) gs) rsB c)"
  using assms
proof (induction gs arbitrary: rsA rsB c)
  case Nil
  then show ?case by simp
next
  case (Cons g gs)
  let ?slice = "\<lambda>rs. take (Offset g) (drop (Begin g) rs)"
  let ?put = "\<lambda>rs ys. take (Begin g) rs @ ys @ drop (Begin g + Offset g) rs"
  let ?A = "GetChecksum_records E (?slice rsA) 0" and ?B = "GetChecksum_records E (?slice rsB) 0"
  have sl: "map InvalidateChecksum (?slice rsA) = map InvalidateChecksum (?slice rsB)"
    using Cons.prems(1) by (simp add: take_map [symmetric] drop_map [symmetric])
  note ca = GetChecksum_records_coherent[OF list_all_slice[THEN conjunct1, OF Cons.prems(2)], of "Offset g" "Begin g" 0]
  note cb = GetChecksum_records_coherent[OF list_all_slice[THEN conjunct1, OF Cons.prems(3)], of "Offset g" "Begin g" 0]
  have va: "fst ?A = GroupDigest E rsA g" using ca by (simp add: GroupDigest_def)
  have vb: "fst ?B = GroupDigest E rsA g" using cb sl by (simp add: GroupDigest_def)
  define rsA' where "rsA' = (if GroupChecksum g = 0 then ?put rsA (snd ?A) else rsA)"
  define rsB' where "rsB' = ?put rsB (snd ?B)"
  have gc: "(if GroupChecksum g = 0 then fst ?A else GroupChecksum g) = GroupDigest E rsA g"
    using Cons.prems(4) va by auto
  have mA: "map InvalidateChecksum rsA' = map InvalidateChecksum rsA"
    unfolding rsA'_def using ca slice_replace[of InvalidateChecksum "snd ?A" "Offset g" "Begin g" rsA] by simp
  have mB: "map InvalidateChecksum rsB' = map InvalidateChecksum rsB"
    unfolding rsB'_def using cb slice_replace[of InvalidateChecksum "snd ?B" "Offset g" "Begin g" rsB] by simp
  have cA: "list_all (RecordCoherent E) rsA'"
    unfolding rsA'_def using ca Cons.prems(2) list_all_slice[OF Cons.prems(2)] by simp
  have cB: "list_all (RecordCoherent E) rsB'"
    unfolding rsB'_def using cb list_all_slice[OF Cons.prems(3)] by simp
  have gA: "list_all (\<lambda>g. GroupChecksum g = 0 \<or> GroupChecksum g = GroupDigest E rsA' g) gs"
    using Cons.prems(4) GroupDigest_cong[OF mA] by simp
  have m: "map InvalidateChecksum rsA' = map InvalidateChecksum rsB'" using mA mB Cons.prems(1) by simp
  note ih = Cons.IH[OF m cA cB gA, of "TypeCrc32 E (GroupDigest E rsA g) c"]
  have lhs: "fst (GetChecksum_groups E (g # gs) rsA c)
      = fst (GetChecksum_groups E gs rsA' (TypeCrc32 E (GroupDigest E rsA g) c))"
  proof (cases "GroupChecksum g = 0")
    case True
    then show ?thesis using va by (simp add: rsA'_def split_beta)
  next
    case False
    then have "GroupChecksum g = GroupDigest E rsA g" using Cons.prems(4) by simp
    then show ?thesis using False by (simp add: rsA'_def split_beta)
  qed
  have rhs: "fst (GetChecksum_groups E (map (\<lambda>g. g\<lparr>GroupChecksum := 0\<rparr>) (g # gs)) rsB c)
      = fst (GetChecksum_groups E (map (\<lambda>g. g\<lparr>GroupChecksum := 0\<rparr>) gs) rsB'
               (TypeCrc32 E (GroupDigest E rsA g) c))"
    using vb by (simp add: rsB'_def split_beta)
  show ?case unfolding lhs rhs using ih .
qed

lemma CachesCoherent_valid:
  assumes "CachesCoherent E s"
  shows "fst (GetChecksum E s) = fst (GetChecksum E (InvalidateChecksums s))"
proof (cases "StateChecksum s = 0")
  case False
  then show ?thesis using assms by (simp add: CachesCoherent_def GetChecksum_reads)
next
  case True
  have c0: "list_all (RecordCoherent E) (map InvalidateChecksum (DataContainer s))"
    by (simp add: list_all_iff RecordCoherent_def InvalidateChecksum_def)
  have i: "map InvalidateChecksum (DataContainer s) = map InvalidateChecksum (map InvalidateChecksum (DataContainer s))"
    by (simp add: InvalidateChecksum_def)
  from assms have "list_all (RecordCoherent E) (DataContainer s)"
    "list_all (\<lambda>g. GroupChecksum g = 0 \<or> GroupChecksum g = GroupDigest E (DataContainer s) g) (Archetypes s)"
    by (simp_all add: CachesCoherent_def)
  from GetChecksum_groups_coherent[OF i this(1) c0 this(2), of 0] True
  show ?thesis by (simp add: GetChecksum_reads InvalidateChecksums_def)
qed

text \<open>
  C2. Let \<open>S\<close> be a state as the mutations leave it, with coherent caches, and let the
  engine read back what it writes: the item serializer the two containers of \<open>S\<close> from the
  buffer, and the archive the header of \<open>SaveState\<close> in front of the buffer. Then \<open>SaveState\<close>
  succeeds, and \<open>LoadState\<close> of its bytes, into any state and with the same data source and
  cooked flag, succeeds without an error and yields a state with the records of \<open>S\<close>
  (their checksum caches cleared), the blobs of \<open>S\<close> and the top-level checksum of \<open>S\<close>.
\<close>

theorem SaveState_LoadState_round_trip:
  assumes "IsFixedUp S" and "CachesCoherent E S"
    and "SaveItem E bIsCooking (Persisted S) = Some (BufferArchive, CustomVersions)"
    and "LoadItem E bIsCooking CustomVersions BufferArchive = (Persisted S, True, False)"
    and "Header_Load E
           (Header_Save E (SavedHeader E DataSourceClassName bIsCooking BufferArchive CustomVersions)
            @ BufferArchive)
         = Some (SavedHeader E DataSourceClassName bIsCooking BufferArchive CustomVersions, BufferArchive)"
  shows "\<exists>Ar S'. SaveState E DataSourceClassName S bIsCooking = (True, Ar)
     \<and> LoadState E DataSourceClassName s Ar bIsCooking = Some (True, S', None)
     \<and> DataContainer S' = map InvalidateChecksum (DataContainer S)
     \<and> CustomDataContainer S' = CustomDataContainer S
     \<and> fst (GetChecksum E S') = fst (GetChecksum E S)"
  using round_trip[OF assms(1,3,4,5), of s] CachesCoherent_valid[OF assms(2)] by simp

lemma Hashed_Armory_fixed: "IsFixedUp Hashed_Armory"
  by code_simp

lemma Hashed_Armory_coherent: "CachesCoherent Toy_Engine Hashed_Armory"
  by code_simp

lemma Hashed_Armory_saved:
  "SaveItem Toy_Engine False (Persisted Hashed_Armory) = Some ([1, 2, 3], [])"
  "LoadItem Toy_Engine False [] [1, 2, 3] = (Persisted Hashed_Armory, True, False)"
  "Header_Load Toy_Engine
     (Header_Save Toy_Engine (SavedHeader Toy_Engine ''ItemSource'' False [1, 2, 3] []) @ [1, 2, 3])
    = Some (SavedHeader Toy_Engine ''ItemSource'' False [1, 2, 3] [], [1, 2, 3])"
  "SaveState Toy_Engine ''ItemSource'' Hashed_Armory False = (True, Saved_Armory)"
  by code_simp+

lemma Hashed_Armory_caches:
  "map Checksum (DataContainer Hashed_Armory) \<noteq> [0, 0]"
  "StateChecksum Hashed_Armory \<noteq> 0"
  by code_simp+

theorem SaveState_LoadState_round_trip_witness:
  "IsFixedUp Hashed_Armory \<and> CachesCoherent Toy_Engine Hashed_Armory
   \<and> StateChecksum Hashed_Armory \<noteq> 0
   \<and> SaveState Toy_Engine ''ItemSource'' Hashed_Armory False = (True, Saved_Armory)
   \<and> LoadState Toy_Engine ''ItemSource'' Stocked Saved_Armory False = Some (True, Loaded_Armory, None)
   \<and> DataContainer Loaded_Armory = map InvalidateChecksum (DataContainer Hashed_Armory)
   \<and> CustomDataContainer Loaded_Armory = CustomDataContainer Hashed_Armory
   \<and> fst (GetChecksum Toy_Engine Loaded_Armory) = fst (GetChecksum Toy_Engine Hashed_Armory)"
proof -
  from SaveState_LoadState_round_trip[OF Hashed_Armory_fixed Hashed_Armory_coherent
      Hashed_Armory_saved(1,2,3), of Stocked]
  obtain Ar S' where sv: "SaveState Toy_Engine ''ItemSource'' Hashed_Armory False = (True, Ar)"
    and ld: "LoadState Toy_Engine ''ItemSource'' Stocked Ar False = Some (True, S', None)"
    and r: "DataContainer S' = map InvalidateChecksum (DataContainer Hashed_Armory)"
      "CustomDataContainer S' = CustomDataContainer Hashed_Armory"
      "fst (GetChecksum Toy_Engine S') = fst (GetChecksum Toy_Engine Hashed_Armory)"
    by blast
  from sv Hashed_Armory_saved(4) have ar: "Ar = Saved_Armory" by simp
  with ld have "Loaded_Armory = S'" by (simp add: Loaded_Armory_def)
  then show ?thesis
    using Hashed_Armory_fixed Hashed_Armory_coherent Hashed_Armory_caches(2) Hashed_Armory_saved(4)
      ld ar r by simp
qed

end
